theory Spec2Isabelle
  imports Complex_Main "HOL-Library.Log_Nat" "HOL-Library.AList" "HOL-Library.Sublist"
begin

section \<open>JavaScript values\<close>

subsection \<open>Numbers\<close>

text \<open>
  A JavaScript number is an IEEE 754 double. The finite ones are modelled by the rational
  they denote, the others by constructors of their own (the sign of zero is not modelled).
  \<open>f64\<close> rounds a rational to the nearest double, ties to even, for values in the normal
  range (between \<open>2 ^ -1022\<close> and \<open>2 ^ 1024\<close>): every quotient and product below is of
  counters that the driver reports as integers below \<open>2 ^ 53\<close>.
\<close>

datatype jsnum = Fin rat | PosInfinity | NegInfinity | NaN

definition floor_log2 :: "rat \<Rightarrow> int" where
  "floor_log2 a =
     (let (p, d) = quotient_of a; k = bitlen p - bitlen d
      in if 2 powi k \<le> a then k else k - 1)"

definition f64 :: "rat \<Rightarrow> rat" where
  "f64 q =
     (if q = 0 then 0
      else let a = \<bar>q\<bar>;
               e = floor_log2 a - 52;
               m = a / 2 powi e;
               f = \<lfloor>m\<rfloor>;
               r = m - of_int f;
               n = (if r < 1 / 2 then f
                    else if 1 / 2 < r then f + 1
                    else if even f then f else f + 1)
           in sgn q * of_int n * 2 powi e)"

text \<open>\<^verbatim>\<open>a / b\<close> on two integers.\<close>

definition js_div :: "int \<Rightarrow> int \<Rightarrow> jsnum" where
  "js_div a b =
     (if b = 0 then (if a = 0 then NaN else if 0 < a then PosInfinity else NegInfinity)
      else Fin (f64 (of_int a / of_int b)))"

text \<open>\<^verbatim>\<open>x * 100\<close>.\<close>

fun js_times100 :: "jsnum \<Rightarrow> jsnum" where
  "js_times100 (Fin q) = Fin (f64 (q * 100))"
| "js_times100 PosInfinity = PosInfinity"
| "js_times100 NegInfinity = NegInfinity"
| "js_times100 NaN = NaN"

text \<open>\<^verbatim>\<open>Math.round\<close> rounds to the nearest integer, a half towards plus infinity.\<close>

fun Math_round :: "jsnum \<Rightarrow> jsnum" where
  "Math_round (Fin q) = Fin (of_int \<lfloor>q + 1 / 2\<rfloor>)"
| "Math_round PosInfinity = PosInfinity"
| "Math_round NegInfinity = NegInfinity"
| "Math_round NaN = NaN"

fun Math_ceil :: "jsnum \<Rightarrow> jsnum" where
  "Math_ceil (Fin q) = Fin (of_int \<lceil>q\<rceil>)"
| "Math_ceil PosInfinity = PosInfinity"
| "Math_ceil NegInfinity = NegInfinity"
| "Math_ceil NaN = NaN"

text \<open>\<^verbatim>\<open>Math.round((a / b) * 100)\<close>, the expression of both percentages of the program.\<close>

definition percentage :: "nat \<Rightarrow> nat \<Rightarrow> jsnum" where
  "percentage a b = Math_round (js_times100 (js_div (int a) (int b)))"

text \<open>The decimal digits of a natural number, as a template literal prints a counter.\<close>

fun nat_toString :: "nat \<Rightarrow> string" where
  "nat_toString n =
     (if n < 10 then [char_of (48 + n)]
      else nat_toString (n div 10) @ [char_of (48 + n mod 10)])"

subsection \<open>Values and documents\<close>

text \<open>
  The values a request body or a database document holds: the JSON kinds, and the two
  driver classes the program tells apart (\<^verbatim>\<open>ObjectId\<close>, by its 24 hexadecimal digits, and
  \<^verbatim>\<open>Date\<close>, by its milliseconds). An object is its own enumerable properties in order.
  A \<open>string\<close> is the UTF-8 encoding of the JavaScript string.
\<close>

datatype jsvalue =
    VUndefined
  | VNull
  | VBoolean bool
  | VNumber jsnum
  | VString string
  | VArray "jsvalue list"
  | VObject "(string \<times> jsvalue) list"
  | VObjectId string
  | VDate int

type_synonym document = "(string \<times> jsvalue) list"

text \<open>\<^verbatim>\<open>!x\<close> is \<open>\<not> truthy x\<close>.\<close>

fun truthy :: "jsvalue \<Rightarrow> bool" where
  "truthy VUndefined = False"
| "truthy VNull = False"
| "truthy (VBoolean b) = b"
| "truthy (VNumber n) = (n \<noteq> Fin 0 \<and> n \<noteq> NaN)"
| "truthy (VString s) = (s \<noteq> [])"
| "truthy (VArray xs) = True"
| "truthy (VObject kvs) = True"
| "truthy (VObjectId h) = True"
| "truthy (VDate t) = True"

type_synonym response = "nat \<times> jsvalue"

section \<open>Job tracker\<close>

datatype job_status = Starting | Connecting | Analyzing | Cloning | Completed | Failed

record clone_job =
  job_id :: string
  status :: job_status
  progress :: jsnum
  details :: string
  startTime :: nat
  collections :: "string list"
  currentCollection :: "string option"
  totalCollections :: nat
  processedCollections :: nat
  totalDocuments :: nat
  processedDocuments :: nat
  errors :: "string list"
  endTime :: "nat option"

text \<open>
  \<^verbatim>\<open>cloningJobs\<close> is a \<^verbatim>\<open>Map\<close> from job identifier to a job object. The objects live
  in the heap, where a running clone keeps writing to the one it was started with; the
  model keeps every job object allocated so far (its address is its position) and the
  map from identifier to address, in insertion order. \<^verbatim>\<open>Map.set\<close> on a present key
  replaces the value in place and on a new key appends, which is \<open>AList.update\<close>.
\<close>

record tracker =
  heap :: "clone_job list"
  cloningJobs :: "(string \<times> nat) list"

definition empty_tracker :: tracker where
  "empty_tracker = \<lparr>heap = [], cloningJobs = []\<rparr>"

record clone_request =
  sourceConnection :: jsvalue
  targetConnection :: jsvalue
  databaseName :: jsvalue

text \<open>The job object the handler of \<^verbatim>\<open>POST /api/clone-database\<close> builds.\<close>

definition new_job :: "string \<Rightarrow> nat \<Rightarrow> clone_job" where
  "new_job jobId now =
     \<lparr>job_id = jobId, status = Starting, progress = Fin 0,
      details = ''Initializing clone operation...'', startTime = now,
      collections = [], currentCollection = None, totalCollections = 0,
      processedCollections = 0, totalDocuments = 0, processedDocuments = 0,
      errors = [], endTime = None\<rparr>"

text \<open>
  The handler up to the start of the clone: \<open>clock\<close> is what \<^verbatim>\<open>Date.now()\<close> returns,
  \<open>now\<close> what \<^verbatim>\<open>new Date()\<close> returns. The result is the response, the address of the new
  job object (when one was made) and the tracker.
\<close>

definition post_clone_database ::
    "clone_request \<Rightarrow> nat \<Rightarrow> nat \<Rightarrow> tracker \<Rightarrow> response \<times> nat option \<times> tracker" where
  "post_clone_database req clock now t =
     (if \<not> truthy (sourceConnection req) \<or> \<not> truthy (targetConnection req)
         \<or> \<not> truthy (databaseName req)
      then ((400, VObject [(''error'',
               VString ''Source connection, target connection, and database name are required'')]),
            None, t)
      else let jobId = nat_toString clock;
               addr = length (heap t);
               t' = \<lparr>heap = heap t @ [new_job jobId now],
                     cloningJobs = AList.update jobId addr (cloningJobs t)\<rparr>
           in ((200, VObject [(''success'', VBoolean True), (''jobId'', VString jobId),
                              (''message'', VString ''Cloning process started'')]),
               Some addr, t'))"

text \<open>\<^verbatim>\<open>cloningJobs.get(jobId)\<close>: the job object the identifier refers to.\<close>

definition get_job :: "tracker \<Rightarrow> string \<Rightarrow> clone_job option" where
  "get_job t jobId =
     (case map_of (cloningJobs t) jobId of None \<Rightarrow> None | Some a \<Rightarrow> Some (heap t ! a))"

text \<open>\<^verbatim>\<open>Array.from(cloningJobs.values())\<close>.\<close>

definition list_jobs :: "tracker \<Rightarrow> clone_job list" where
  "list_jobs t = map (\<lambda>(k, a). heap t ! a) (cloningJobs t)"

text \<open>\<^verbatim>\<open>cloningJobs.delete(jobId)\<close>: whether the key was present, and the tracker.\<close>

definition delete_job :: "tracker \<Rightarrow> string \<Rightarrow> bool \<times> tracker" where
  "delete_job t jobId =
     (map_of (cloningJobs t) jobId \<noteq> None,
      t\<lparr>cloningJobs := AList.delete jobId (cloningJobs t)\<rparr>)"

section \<open>Clone engine\<close>

subsection \<open>The source database and the faults of a run\<close>

text \<open>
  What the driver answers during one run of \<^verbatim>\<open>cloneDatabase\<close>: the collections that
  \<^verbatim>\<open>listCollections\<close> returns and, for each, what every call on it answers. The calls are
  separate reads of a source that other clients may write to, so the number that
  \<^verbatim>\<open>countDocuments\<close> returns (\<open>countDocuments_result\<close>, or the message of its error) is
  independent of the documents that \<^verbatim>\<open>find({}).toArray()\<close> returns later (\<open>documents\<close>).
  Every other call that can reject carries the message of its error, \<open>None\<close> when it
  succeeds; so do the two calls of \<^verbatim>\<open>MongoClient.close()\<close>.
\<close>

record index =
  index_name :: string
  index_key :: document
  createIndex_error :: "string option"

record source_collection =
  coll_name :: string
  documents :: "document list"
  indexes :: "index list"
  countDocuments_result :: "string + nat"
  drop_error :: "string option"
  find_error :: "string option"
  insertMany_error :: "nat \<Rightarrow> string option"
  listIndexes_error :: "string option"

text \<open>
  \<open>insertMany_error c j\<close> is the outcome of the \<^verbatim>\<open>insertMany\<close> of the batch that starts at
  document \<open>j\<close>. \<open>end_clock\<close> is what \<^verbatim>\<open>new Date()\<close> returns when the run ends.
\<close>

record clone_env =
  source_connect_error :: "string option"
  target_connect_error :: "string option"
  listCollections_error :: "string option"
  source_collections :: "source_collection list"
  source_close_error :: "string option"
  target_close_error :: "string option"
  end_clock :: nat

datatype connection = SourceConnection | TargetConnection

text \<open>
  The state of a run: the job object, the two local variables holding the clients, the
  connections that are open, those that a call of \<^verbatim>\<open>close\<close> has closed (in the order of
  the calls), the error with which the promise of \<^verbatim>\<open>cloneDatabase\<close> rejects (\<open>None\<close> while
  it has not), and the job as it stood at every point where the run was suspended in an
  \<^verbatim>\<open>await\<close> (there, and only there, a status request can read it). A connection whose
  \<^verbatim>\<open>close\<close> rejects is taken to stay open.
\<close>

record run_state =
  job :: clone_job
  sourceClient :: "connection option"
  targetClient :: "connection option"
  open_connections :: "connection list"
  closed_connections :: "connection list"
  rejection :: "string option"
  trace :: "clone_job list"

definition await_point :: "run_state \<Rightarrow> run_state" where
  "await_point s = s\<lparr>trace := trace s @ [job s]\<rparr>"

definition batchSize :: nat where
  "batchSize = 1000"

subsection \<open>The loops\<close>

text \<open>Counting the documents of every collection; \<open>Inl\<close> is the error thrown.\<close>

fun count_documents ::
    "source_collection list \<Rightarrow> nat \<Rightarrow> run_state \<Rightarrow> run_state \<times> (string + nat)" where
  "count_documents [] totalDocs s = (s, Inr totalDocs)"
| "count_documents (c # cs) totalDocs s =
     (let s1 = await_point s
      in case countDocuments_result c of
           Inl e \<Rightarrow> (s1, Inl e)
         | Inr count \<Rightarrow> count_documents cs (totalDocs + count) s1)"

text \<open>
  After a batch of \<open>n\<close> documents is inserted:
  \<^verbatim>\<open>job.processedDocuments += batch.length\<close> and the progress is computed again.
\<close>

definition batch_inserted :: "nat \<Rightarrow> run_state \<Rightarrow> run_state" where
  "batch_inserted n s =
     (let pd = processedDocuments (job s) + n
      in s\<lparr>job := (job s)\<lparr>processedDocuments := pd,
                            progress := percentage pd (totalDocuments (job s))\<rparr>\<rparr>)"

text \<open>
  The batch loop, \<^verbatim>\<open>for (let j = 0; j < documents.length; j += batchSize)\<close>, where the
  batch is \<^verbatim>\<open>documents.slice(j, j + batchSize)\<close>; the second component is the message of
  the error thrown, if any.
\<close>

function insert_batches ::
    "source_collection \<Rightarrow> document list \<Rightarrow> nat \<Rightarrow> run_state \<Rightarrow> run_state \<times> string option" where
  "insert_batches c docs j s =
     (if j < length docs then
        let batch = take batchSize (drop j docs);
            s1 = await_point s
        in case insertMany_error c j of
             Some e \<Rightarrow> (s1, Some e)
           | None \<Rightarrow> insert_batches c docs (j + batchSize) (batch_inserted (length batch) s1)
      else (s, None))"
  by pat_completeness auto
termination
  by (relation "measure (\<lambda>(c, docs, j, s). length docs - j)") (auto simp: batchSize_def)

text \<open>The index loop: a failing \<^verbatim>\<open>createIndex\<close> is caught and logged.\<close>

definition index_error_message :: "string \<Rightarrow> string \<Rightarrow> string \<Rightarrow> string" where
  "index_error_message indexName collectionName msg =
     ''Failed to create index '' @ indexName @ '' on '' @ collectionName @ '': '' @ msg"

fun copy_indexes :: "string \<Rightarrow> index list \<Rightarrow> run_state \<Rightarrow> run_state" where
  "copy_indexes collectionName [] s = s"
| "copy_indexes collectionName (ix # ixs) s =
     (if index_name ix \<noteq> ''_id_'' then
        let s1 = await_point s
        in case createIndex_error ix of
             Some e \<Rightarrow>
               copy_indexes collectionName ixs
                 (s1\<lparr>job := (job s1)\<lparr>errors := errors (job s1) @
                        [index_error_message (index_name ix) collectionName e]\<rparr>\<rparr>)
           | None \<Rightarrow> copy_indexes collectionName ixs s1
      else copy_indexes collectionName ixs s)"

text \<open>
  The loop over the collections. The three \<open>await_point\<close>s before the index loop are the
  \<^verbatim>\<open>drop\<close> (whose error is ignored), the \<^verbatim>\<open>find\<close> and the \<^verbatim>\<open>listIndexes\<close>.
\<close>

fun clone_collections :: "source_collection list \<Rightarrow> run_state \<Rightarrow> run_state \<times> string option" where
  "clone_collections [] s = (s, None)"
| "clone_collections (c # cs) s =
     (let collectionName = coll_name c;
          s1 = s\<lparr>job := (job s)\<lparr>currentCollection := Some collectionName,
                               details := ''Cloning collection: '' @ collectionName\<rparr>\<rparr>;
          s2 = await_point s1;
          s3 = await_point s2
      in case find_error c of
           Some e \<Rightarrow> (s3, Some e)
         | None \<Rightarrow>
             (case (if 0 < length (documents c) then insert_batches c (documents c) 0 s3
                    else (s3, None)) of
                (s4, Some e) \<Rightarrow> (s4, Some e)
              | (s4, None) \<Rightarrow>
                  let s5 = await_point s4
                  in case listIndexes_error c of
                       Some e \<Rightarrow> (s5, Some e)
                     | None \<Rightarrow>
                         let s6 = copy_indexes collectionName (indexes c) s5;
                             s7 = s6\<lparr>job := (job s6)\<lparr>processedCollections :=
                                         processedCollections (job s6) + 1\<rparr>\<rparr>
                         in clone_collections cs s7))"

subsection \<open>\<^verbatim>\<open>cloneDatabase\<close>\<close>

text \<open>
  The body of the \<^verbatim>\<open>try\<close>, in its three stages; each returns the state it leaves and
  the message of the error thrown, if any. First both clients are connected
  (\<^verbatim>\<open>connectToMongoDB\<close> wraps the driver's error).
\<close>

definition connect_clients :: "clone_env \<Rightarrow> run_state \<Rightarrow> run_state \<times> string option" where
  "connect_clients env s0 =
     (let s1 = await_point (s0\<lparr>job := (job s0)\<lparr>status := Connecting,
                 details := ''Connecting to source and target databases...''\<rparr>\<rparr>)
      in case source_connect_error env of
           Some e \<Rightarrow> (s1, Some (''Connection failed: '' @ e))
         | None \<Rightarrow>
             let s2 = await_point (s1\<lparr>sourceClient := Some SourceConnection,
                         open_connections := open_connections s1 @ [SourceConnection]\<rparr>)
             in case target_connect_error env of
                  Some e \<Rightarrow> (s2, Some (''Connection failed: '' @ e))
                | None \<Rightarrow>
                    (s2\<lparr>targetClient := Some TargetConnection,
                        open_connections := open_connections s2 @ [TargetConnection]\<rparr>, None))"

text \<open>Then the collections are listed and their documents counted.\<close>

definition analyze :: "clone_env \<Rightarrow> run_state \<Rightarrow> run_state \<times> string option" where
  "analyze env s =
     (let s1 = await_point (s\<lparr>job := (job s)\<lparr>status := Analyzing,
                 details := ''Analyzing source database structure...''\<rparr>\<rparr>)
      in case listCollections_error env of
           Some e \<Rightarrow> (s1, Some e)
         | None \<Rightarrow>
             let cols = source_collections env;
                 s2 = s1\<lparr>job := (job s1)\<lparr>totalCollections := length cols,
                                        collections := map coll_name cols\<rparr>\<rparr>
             in case count_documents cols 0 s2 of
                  (s3, Inl e) \<Rightarrow> (s3, Some e)
                | (s3, Inr totalDocs) \<Rightarrow>
                    (s3\<lparr>job := (job s3)\<lparr>totalDocuments := totalDocs\<rparr>\<rparr>, None))"

text \<open>Then every collection is cloned, and the job is completed.\<close>

definition clone_all :: "clone_env \<Rightarrow> string \<Rightarrow> run_state \<Rightarrow> run_state \<times> string option" where
  "clone_all env dbName s =
     (let cols = source_collections env;
          s1 = s\<lparr>job := (job s)\<lparr>status := Cloning,
                  details := ''Starting to clone '' @ nat_toString (length cols)
                             @ '' collections...''\<rparr>\<rparr>
      in case clone_collections cols s1 of
           (s2, Some e) \<Rightarrow> (s2, Some e)
         | (s2, None) \<Rightarrow>
             (s2\<lparr>job := (job s2)\<lparr>status := Completed, progress := Fin 100,
                    details := ''Successfully cloned database '' @ [CHR 0x27] @ dbName
                      @ [CHR 0x27] @ '' with '' @ nat_toString (totalCollections (job s2))
                      @ '' collections and '' @ nat_toString (totalDocuments (job s2))
                      @ '' documents'',
                    endTime := Some (end_clock env)\<rparr>\<rparr>, None))"

definition clone_try :: "clone_env \<Rightarrow> string \<Rightarrow> run_state \<Rightarrow> run_state \<times> string option" where
  "clone_try env dbName s0 =
     (case connect_clients env s0 of
        (s1, Some e) \<Rightarrow> (s1, Some e)
      | (s1, None) \<Rightarrow>
          (case analyze env s1 of
             (s2, Some e) \<Rightarrow> (s2, Some e)
           | (s2, None) \<Rightarrow> clone_all env dbName s2))"

text \<open>The \<^verbatim>\<open>catch\<close> block.\<close>

definition clone_catch :: "clone_env \<Rightarrow> string \<Rightarrow> run_state \<Rightarrow> run_state" where
  "clone_catch env msg s =
     s\<lparr>job := (job s)\<lparr>status := Failed, details := ''Error: '' @ msg,
                       errors := errors (job s) @ [msg],
                       endTime := Some (end_clock env)\<rparr>\<rparr>"

definition close_connection :: "connection \<Rightarrow> run_state \<Rightarrow> run_state" where
  "close_connection c s =
     s\<lparr>open_connections := removeAll c (open_connections s),
       closed_connections := closed_connections s @ [c]\<rparr>"

text \<open>
  The \<^verbatim>\<open>finally\<close> block: two statements, each an \<^verbatim>\<open>await\<close> of \<^verbatim>\<open>close()\<close> on a client that is
  not null. A \<^verbatim>\<open>close\<close> that rejects throws out of the block: what follows it is not
  run, and the promise of \<^verbatim>\<open>cloneDatabase\<close> rejects with its error.
\<close>

definition close_target :: "clone_env \<Rightarrow> run_state \<Rightarrow> run_state" where
  "close_target env s =
     (case targetClient s of
        None \<Rightarrow> s
      | Some c \<Rightarrow>
          let s1 = await_point s
          in case target_close_error env of
               Some e \<Rightarrow> s1\<lparr>rejection := Some e\<rparr>
             | None \<Rightarrow> close_connection c s1)"

definition clone_finally :: "clone_env \<Rightarrow> run_state \<Rightarrow> run_state" where
  "clone_finally env s =
     (case sourceClient s of
        None \<Rightarrow> close_target env s
      | Some c \<Rightarrow>
          let s1 = await_point s
          in case source_close_error env of
               Some e \<Rightarrow> s1\<lparr>rejection := Some e\<rparr>
             | None \<Rightarrow> close_target env (close_connection c s1))"

text \<open>
  \<^verbatim>\<open>cloneDatabase\<close> on the job object \<open>j\<close> that \<^verbatim>\<open>cloningJobs.get(jobId)\<close> returned. The last
  entry of the trace is the job when the run has ended.
\<close>

definition cloneDatabase :: "clone_env \<Rightarrow> string \<Rightarrow> clone_job \<Rightarrow> run_state" where
  "cloneDatabase env dbName j =
     (let s0 = \<lparr>job = j, sourceClient = None, targetClient = None,
                open_connections = [], closed_connections = [], rejection = None,
                trace = [j]\<rparr>;
          s1 = (case clone_try env dbName s0 of
                  (s, None) \<Rightarrow> s
                | (s, Some msg) \<Rightarrow> clone_catch env msg s);
          s2 = clone_finally env s1
      in await_point s2)"

section \<open>Notions used in the statements\<close>

subsection \<open>The clone engine\<close>

text \<open>
  The number of documents that \<^verbatim>\<open>find\<close> returns for a list of source collections, and the
  sum of the numbers that \<^verbatim>\<open>countDocuments\<close> returns for them.
\<close>

definition docs_total :: "source_collection list \<Rightarrow> nat" where
  "docs_total cs = sum_list (map (\<lambda>c. length (documents c)) cs)"

definition counts_total :: "source_collection list \<Rightarrow> nat" where
  "counts_total cs =
     sum_list (map (\<lambda>c. case countDocuments_result c of Inl e \<Rightarrow> 0 | Inr n \<Rightarrow> n) cs)"

text \<open>
  The messages the index loop logs for the indexes of one collection: one for each index
  other than \<^verbatim>\<open>_id_\<close> whose \<^verbatim>\<open>createIndex\<close> fails, in the order of the indexes.
\<close>

definition index_failure_messages :: "string \<Rightarrow> index list \<Rightarrow> string list" where
  "index_failure_messages collectionName ixs =
     concat (map (\<lambda>ix. if index_name ix \<noteq> ''_id_''
                         then (case createIndex_error ix of
                                 Some e \<Rightarrow> [index_error_message (index_name ix) collectionName e]
                               | None \<Rightarrow> [])
                         else []) ixs)"



text \<open>The connections a run opens, in the order it opens them.\<close>

definition connections_opened :: "clone_env \<Rightarrow> connection list" where
  "connections_opened env =
     (case source_connect_error env of
        Some e \<Rightarrow> []
      | None \<Rightarrow> (case target_connect_error env of
                   Some e \<Rightarrow> [SourceConnection]
                 | None \<Rightarrow> [SourceConnection, TargetConnection]))"

text \<open>
  The order of the statuses: \<open>status_forward a b\<close> when a job observed with status \<open>a\<close> may
  later be observed with status \<open>b\<close>.
\<close>

definition status_rank :: "job_status \<Rightarrow> nat" where
  "status_rank st =
     (case st of Starting \<Rightarrow> 0 | Connecting \<Rightarrow> 1 | Analyzing \<Rightarrow> 2 | Cloning \<Rightarrow> 3
               | Completed \<Rightarrow> 4 | Failed \<Rightarrow> 4)"

definition terminal :: "job_status \<Rightarrow> bool" where
  "terminal st \<longleftrightarrow> st = Completed \<or> st = Failed"

definition status_forward :: "job_status \<Rightarrow> job_status \<Rightarrow> bool" where
  "status_forward a b \<longleftrightarrow> status_rank a \<le> status_rank b \<and> (terminal a \<longrightarrow> b = a)"


subsection \<open>Auxiliary notions of the proofs\<close>

text \<open>The trace of \<open>s'\<close> is that of \<open>s\<close> followed by observations that satisfy \<open>P\<close>.\<close>

definition extends_with :: "(clone_job \<Rightarrow> bool) \<Rightarrow> run_state \<Rightarrow> run_state \<Rightarrow> bool" where
  "extends_with P s s' \<longleftrightarrow> (\<exists>ext. trace s' = trace s @ ext \<and> list_all P ext)"

text \<open>A job in the cloning stage with total \<open>T\<close>.\<close>

definition cloning_ok :: "nat \<Rightarrow> clone_job \<Rightarrow> bool" where
  "cloning_ok T x \<longleftrightarrow>
     status x = Cloning \<and> totalDocuments x = T \<and>
     progress x = (if processedDocuments x = 0 then Fin 0
                   else percentage (processedDocuments x) T)"

definition counters_kept :: "job_status \<Rightarrow> clone_job \<Rightarrow> clone_job \<Rightarrow> bool" where
  "counters_kept st j0 x \<longleftrightarrow>
     status x = st \<and> progress x = progress j0 \<and> totalDocuments x = totalDocuments j0 \<and>
     processedDocuments x = processedDocuments j0 \<and>
     processedCollections x = processedCollections j0 \<and> errors x = errors j0"

definition trace_forward :: "run_state \<Rightarrow> bool" where
  "trace_forward s \<longleftrightarrow>
     sorted_wrt status_forward (map status (trace s)) \<and>
     list_all (\<lambda>x. status_forward (status x) (status (job s))) (trace s)"

definition connection_state ::
    "run_state \<Rightarrow> connection option \<times> connection option \<times> connection list \<times> connection list" where
  "connection_state s =
     (sourceClient s, targetClient s, open_connections s, closed_connections s)"

text \<open>The steps of one round of the loop over the collections.\<close>

definition fetched :: "source_collection \<Rightarrow> run_state \<Rightarrow> run_state" where
  "fetched c s =
     await_point (await_point (s\<lparr>job := (job s)\<lparr>currentCollection := Some (coll_name c),
        details := ''Cloning collection: '' @ coll_name c\<rparr>\<rparr>))"

definition inserted :: "source_collection \<Rightarrow> run_state \<Rightarrow> run_state \<times> string option" where
  "inserted c s =
     (if 0 < length (documents c) then insert_batches c (documents c) 0 (fetched c s)
      else (fetched c s, None))"

definition collection_done :: "source_collection \<Rightarrow> run_state \<Rightarrow> run_state" where
  "collection_done c s =
     (let s6 = copy_indexes (coll_name c) (indexes c) (await_point s)
      in s6\<lparr>job := (job s6)\<lparr>processedCollections := processedCollections (job s6) + 1\<rparr>\<rparr>)"

text \<open>The states of a run at the start, when the cloning stage begins and when it is completed; a job as the handler creates it.\<close>

definition cloning_started :: "clone_env \<Rightarrow> run_state \<Rightarrow> run_state" where
  "cloning_started env s =
     s\<lparr>job := (job s)\<lparr>status := Cloning,
          details := ''Starting to clone '' @ nat_toString (length (source_collections env))
                     @ '' collections...''\<rparr>\<rparr>"

definition completed :: "clone_env \<Rightarrow> string \<Rightarrow> run_state \<Rightarrow> run_state" where
  "completed env dbName s =
     s\<lparr>job := (job s)\<lparr>status := Completed, progress := Fin 100,
          details := ''Successfully cloned database '' @ [CHR 0x27] @ dbName
            @ [CHR 0x27] @ '' with '' @ nat_toString (totalCollections (job s))
            @ '' collections and '' @ nat_toString (totalDocuments (job s))
            @ '' documents'',
          endTime := Some (end_clock env)\<rparr>\<rparr>"

definition fresh :: "clone_job \<Rightarrow> bool" where
  "fresh j \<longleftrightarrow>
     status j = Starting \<and> progress j = Fin 0 \<and> totalDocuments j = 0 \<and>
     processedDocuments j = 0 \<and> processedCollections j = 0 \<and> errors j = []"

definition initial_state :: "clone_job \<Rightarrow> run_state" where
  "initial_state j =
     \<lparr>job = j, sourceClient = None, targetClient = None,
      open_connections = [], closed_connections = [], rejection = None, trace = [j]\<rparr>"

subsection \<open>Example runs\<close>

text \<open>
  A database of two collections, one with two documents and a secondary index whose
  recreation fails, the other empty.
\<close>

definition example_collections :: "source_collection list" where
  "example_collections =
     [\<lparr>coll_name = ''users'',
       documents = [[(''name'', VString ''ann'')], [(''name'', VString ''bob'')]],
       indexes = [\<lparr>index_name = ''_id_'', index_key = [(''_id'', VNumber (Fin 1))],
                   createIndex_error = None\<rparr>,
                  \<lparr>index_name = ''name_1'', index_key = [(''name'', VNumber (Fin 1))],
                   createIndex_error = Some ''duplicate key''\<rparr>],
       countDocuments_result = Inr 2, drop_error = Some ''ns not found'', find_error = None,
       insertMany_error = (\<lambda>j. None), listIndexes_error = None\<rparr>,
      \<lparr>coll_name = ''logs'', documents = [], indexes = [],
       countDocuments_result = Inr 0, drop_error = None, find_error = None,
       insertMany_error = (\<lambda>j. None), listIndexes_error = None\<rparr>]"

definition example_env :: clone_env where
  "example_env =
     \<lparr>source_connect_error = None, target_connect_error = None,
      listCollections_error = None, source_collections = example_collections,
      source_close_error = None, target_close_error = None, end_clock = 2000\<rparr>"

text \<open>A database whose only collection is an empty view: \<^verbatim>\<open>listIndexes\<close> rejects on a view.\<close>

definition view_env :: clone_env where
  "view_env =
     \<lparr>source_connect_error = None, target_connect_error = None,
      listCollections_error = None,
      source_collections =
        [\<lparr>coll_name = ''recent'', documents = [], indexes = [],
          countDocuments_result = Inr 0, drop_error = None, find_error = None,
          insertMany_error = (\<lambda>j. None),
          listIndexes_error = Some ''Namespace db.recent is a view, not a collection''\<rparr>],
      source_close_error = None, target_close_error = None, end_clock = 2000\<rparr>"



text \<open>The first database, with a source client whose \<^verbatim>\<open>close()\<close> rejects.\<close>

definition close_rejects_env :: clone_env where
  "close_rejects_env = example_env\<lparr>source_close_error := Some ''Topology is closed''\<rparr>"

text \<open>
  Two requests to start a clone that the server handles within the same millisecond:
  \<^verbatim>\<open>Date.now()\<close> returns 1700000000000 to both.
\<close>

definition example_request :: clone_request where
  "example_request =
     \<lparr>sourceConnection = VString ''mongodb://source.example'',
      targetConnection = VString ''mongodb://target.example'',
      databaseName = VString ''shop''\<rparr>"

definition after_first_request :: tracker where
  "after_first_request =
     snd (snd (post_clone_database example_request 1700000000000 1700000000000 empty_tracker))"

definition after_second_request :: tracker where
  "after_second_request =
     snd (snd (post_clone_database example_request 1700000000000 1700000000000
                 after_first_request))"

section \<open>Schema inference\<close>

text \<open>
  \<^verbatim>\<open>generateSchema\<close> builds a plain object \<^verbatim>\<open>schema\<close> keyed by field name. It is modelled by
  the list of its own properties in the order of their creation (JavaScript enumerates
  keys that look like array indices first; only the mapping matters below). A set of
  type names is the list of its elements in the order of insertion. An exception thrown
  is \<open>Inl\<close> of its message.
\<close>

record schema_entry =
  types :: "string list"
  required :: nat
  examples :: "jsvalue list"

record schema_field = schema_entry +
  requiredPercentage :: jsnum

type_synonym schema = "(string \<times> schema_field) list"

text \<open>
  \<^verbatim>\<open>schema[field]\<close> reads through the prototype of \<^verbatim>\<open>schema\<close>: for these names it finds a
  member of \<^verbatim>\<open>Object.prototype\<close>, which is truthy and has no \<^verbatim>\<open>types\<close>.
\<close>

definition Object_prototype_keys :: "string list" where
  "Object_prototype_keys =
     [''constructor'', ''__defineGetter__'', ''__defineSetter__'', ''hasOwnProperty'',
      ''__lookupGetter__'', ''__lookupSetter__'', ''isPrototypeOf'',
      ''propertyIsEnumerable'', ''toString'', ''valueOf'', ''__proto__'',
      ''toLocaleString'']"

text \<open>
  \<^verbatim>\<open>value.constructor.name === 'ObjectId'\<close> for a value whose \<^verbatim>\<open>typeof\<close> is \<^verbatim>\<open>'object'\<close> and
  that is neither an array nor null. A plain object answers with its own property
  \<^verbatim>\<open>constructor\<close> when it has one (reading \<^verbatim>\<open>name\<close> of null or undefined throws), and
  with \<^verbatim>\<open>Object\<close> otherwise.
\<close>

definition constructor_is_ObjectId :: "jsvalue \<Rightarrow> string + bool" where
  "constructor_is_ObjectId value =
     (case value of
        VObjectId h \<Rightarrow> Inr True
      | VObject kvs \<Rightarrow>
          (case map_of kvs ''constructor'' of
             None \<Rightarrow> Inr False
           | Some VNull \<Rightarrow> Inl ''Cannot read properties of null (reading 'name')''
           | Some VUndefined \<Rightarrow> Inl ''Cannot read properties of undefined (reading 'name')''
           | Some (VObject c) \<Rightarrow> Inr (map_of c ''name'' = Some (VString ''ObjectId''))
           | Some other \<Rightarrow> Inr False)
      | other \<Rightarrow> Inr False)"

text \<open>The chain of conditionals that names the type of a value.\<close>

definition type_of :: "jsvalue \<Rightarrow> string + string" where
  "type_of value =
     (case value of
        VArray xs \<Rightarrow> Inr ''array''
      | VNull \<Rightarrow> Inr ''null''
      | VUndefined \<Rightarrow> Inr ''undefined''
      | VBoolean b \<Rightarrow> Inr ''boolean''
      | VNumber n \<Rightarrow> Inr ''number''
      | VString s \<Rightarrow> Inr ''string''
      | other \<Rightarrow>
          (case constructor_is_ObjectId value of
             Inl e \<Rightarrow> Inl e
           | Inr True \<Rightarrow> Inr ''ObjectId''
           | Inr False \<Rightarrow> (case value of VDate t \<Rightarrow> Inr ''date'' | obj \<Rightarrow> Inr ''object'')))"

text \<open>\<^verbatim>\<open>Set.prototype.add\<close>.\<close>

definition set_add :: "string \<Rightarrow> string list \<Rightarrow> string list" where
  "set_add x xs = (if x \<in> set xs then xs else xs @ [x])"

text \<open>The body of the inner \<^verbatim>\<open>forEach\<close>, for one field of one document.\<close>

definition add_field ::
    "(string \<times> schema_entry) list \<Rightarrow> string \<times> jsvalue \<Rightarrow> string + (string \<times> schema_entry) list" where
  "add_field schema fv =
     (let field = fst fv; value = snd fv;
          schema1 = (if field \<notin> set Object_prototype_keys \<and> map_of schema field = None
                     then schema @ [(field, \<lparr>types = [], required = 0, examples = []\<rparr>)]
                     else schema)
      in case type_of value of
           Inl e \<Rightarrow> Inl e
         | Inr ty \<Rightarrow>
             (case (if field \<in> set Object_prototype_keys then None else map_of schema1 field) of
                None \<Rightarrow> Inl ''Cannot read properties of undefined (reading 'add')''
              | Some entry \<Rightarrow>
                  let entry1 = entry\<lparr>types := set_add ty (types entry),
                                      required := required entry + 1\<rparr>;
                      entry2 = (if length (examples entry1) < 3
                                then entry1\<lparr>examples := examples entry1 @ [value]\<rparr>
                                else entry1)
                  in Inr (AList.update field entry2 schema1)))"

text \<open>\<^verbatim>\<open>Object.keys(doc).forEach\<close> and \<^verbatim>\<open>documents.forEach\<close>: the first exception ends both.\<close>

fun add_fields ::
    "(string \<times> schema_entry) list \<Rightarrow> document \<Rightarrow> string + (string \<times> schema_entry) list" where
  "add_fields schema [] = Inr schema"
| "add_fields schema (fv # fvs) =
     (case add_field schema fv of Inl e \<Rightarrow> Inl e | Inr schema1 \<Rightarrow> add_fields schema1 fvs)"

fun add_documents ::
    "(string \<times> schema_entry) list \<Rightarrow> document list \<Rightarrow> string + (string \<times> schema_entry) list" where
  "add_documents schema [] = Inr schema"
| "add_documents schema (doc # docs) =
     (case add_fields schema doc of Inl e \<Rightarrow> Inl e | Inr schema1 \<Rightarrow> add_documents schema1 docs)"

text \<open>The last loop: the percentage of the sample that has the field.\<close>

definition with_percentage :: "nat \<Rightarrow> schema_entry \<Rightarrow> schema_field" where
  "with_percentage n entry =
     \<lparr>types = types entry, required = required entry, examples = examples entry,
      requiredPercentage = percentage (required entry) n\<rparr>"

definition generateSchema :: "document list \<Rightarrow> string + schema" where
  "generateSchema docs =
     (if length docs = 0 then Inr []
      else case add_documents [] docs of
             Inl e \<Rightarrow> Inl e
           | Inr schema \<Rightarrow>
               Inr (map (\<lambda>(field, entry). (field, with_percentage (length docs) entry)) schema))"

text \<open>The values a field has in a sample, in the order of the documents.\<close>

definition field_values :: "string \<Rightarrow> document list \<Rightarrow> jsvalue list" where
  "field_values field docs = map snd (filter (\<lambda>fv. fst fv = field) (concat docs))"

text \<open>The sample of the claim, \<^verbatim>\<open>[{a: 1}, {a: "x", b: true}]\<close>.\<close>

definition example_sample :: "document list" where
  "example_sample =
     [[(''a'', VNumber (Fin 1))], [(''a'', VString ''x''), (''b'', VBoolean True)]]"

text \<open>A sample in which a field occurs five times.\<close>

definition long_sample :: "document list" where
  "long_sample = map (\<lambda>n. [(''k'', VNumber (Fin (of_nat n)))]) [1, 2, 3, 4, 5]"

text \<open>
  The entries of \<open>schema\<close> record the values \<open>vs\<close> seen so far: a field is present when it
  has occurred, with the number of its occurrences and the first three of its values.
\<close>

definition tracks :: "(string \<times> schema_entry) list \<Rightarrow> (string \<Rightarrow> jsvalue list) \<Rightarrow> bool" where
  "tracks schema vs \<longleftrightarrow>
     (\<forall>f. case map_of schema f of
            None \<Rightarrow> vs f = []
          | Some e \<Rightarrow> examples e = take 3 (vs f) \<and> required e = length (vs f))"

section \<open>The document routes\<close>

subsection \<open>The driver\<close>

text \<open>
  The routes hand every database operation to the MongoDB driver, which is not part of
  the repository; so do they the parsing of JSON text and of object identifiers. The
  model takes them as a record of functions. An operation works on the documents of the
  collection the request names and returns \<open>Inl\<close> of the message of the error it throws;
  \<^verbatim>\<open>connectToMongoDB\<close> returns the message of the driver's error, \<open>None\<close> when it connects.
  \<open>find_cursor f skip limit\<close> is \<^verbatim>\<open>find(f).skip(skip).limit(limit).toArray()\<close>. The handles
  of the connections are not modelled.
\<close>

record driver =
  connectToMongoDB :: "jsvalue \<Rightarrow> string option"
  JSON_parse :: "string \<Rightarrow> jsvalue option"
  ObjectId :: "jsvalue \<Rightarrow> string + string"
  find_cursor :: "jsvalue \<Rightarrow> int \<Rightarrow> int \<Rightarrow> document list \<Rightarrow> string + document list"
  countDocuments :: "jsvalue \<Rightarrow> document list \<Rightarrow> string + nat"
  insertOne :: "jsvalue \<Rightarrow> document list \<Rightarrow> string + jsvalue \<times> document list"
  updateOne :: "jsvalue \<Rightarrow> jsvalue \<Rightarrow> document list \<Rightarrow> string + nat \<times> nat \<times> document list"
  deleteOne :: "jsvalue \<Rightarrow> document list \<Rightarrow> string + nat \<times> document list"
  findOne :: "jsvalue \<Rightarrow> document list \<Rightarrow> string + document option"

text \<open>
  The fields of \<^verbatim>\<open>req.body\<close> the routes read; a field that is absent is \<open>VUndefined\<close>.
  \<open>page\<close> and \<open>limit\<close> are integers when present.
\<close>

record crud_request =
  body_connectionString :: jsvalue
  body_databaseName :: jsvalue
  body_collectionName :: jsvalue
  body_documentId :: jsvalue
  body_updates :: jsvalue
  body_document :: jsvalue
  body_filter :: jsvalue
  body_page :: "int option"
  body_limit :: "int option"

text \<open>The response of the \<^verbatim>\<open>catch\<close> block of every route.\<close>

definition error_response :: "string \<Rightarrow> response" where
  "error_response msg = (400, VObject [(''success'', VBoolean False), (''error'', VString msg)])"

subsection \<open>Parsing the payloads\<close>

text \<open>
  \<^verbatim>\<open>String.prototype.trim\<close> removes white space and line terminators from both ends of a
  string: the code points U+0009 to U+000D, U+0020, U+00A0, U+1680, U+2000 to U+200A,
  U+2028, U+2029, U+202F, U+205F, U+3000 and U+FEFF, listed here by their encodings.
\<close>

definition js_whitespace :: "string list" where
  "js_whitespace =
     [[CHR 0x09], [CHR 0x0A], [CHR 0x0B], [CHR 0x0C], [CHR 0x0D], [CHR 0x20],
      [CHR 0xC2, CHR 0xA0], [CHR 0xE1, CHR 0x9A, CHR 0x80],
      [CHR 0xE2, CHR 0x80, CHR 0x80], [CHR 0xE2, CHR 0x80, CHR 0x81],
      [CHR 0xE2, CHR 0x80, CHR 0x82], [CHR 0xE2, CHR 0x80, CHR 0x83],
      [CHR 0xE2, CHR 0x80, CHR 0x84], [CHR 0xE2, CHR 0x80, CHR 0x85],
      [CHR 0xE2, CHR 0x80, CHR 0x86], [CHR 0xE2, CHR 0x80, CHR 0x87],
      [CHR 0xE2, CHR 0x80, CHR 0x88], [CHR 0xE2, CHR 0x80, CHR 0x89],
      [CHR 0xE2, CHR 0x80, CHR 0x8A], [CHR 0xE2, CHR 0x80, CHR 0xA8],
      [CHR 0xE2, CHR 0x80, CHR 0xA9], [CHR 0xE2, CHR 0x80, CHR 0xAF],
      [CHR 0xE2, CHR 0x81, CHR 0x9F], [CHR 0xE3, CHR 0x80, CHR 0x80],
      [CHR 0xEF, CHR 0xBB, CHR 0xBF]]"

text \<open>Removing from the front of \<open>s\<close> every leading occurrence of one of the words \<open>ws\<close>.\<close>

function strip_leading :: "string list \<Rightarrow> string \<Rightarrow> string" where
  "strip_leading ws s =
     (case List.find (\<lambda>w. w \<noteq> [] \<and> prefix w s) ws of
        None \<Rightarrow> s
      | Some w \<Rightarrow> strip_leading ws (drop (length w) s))"
  by pat_completeness auto
termination
  by (relation "measure (\<lambda>(ws, s). length s)") (auto simp: find_Some_iff prefix_def)

definition js_trim :: "string \<Rightarrow> string" where
  "js_trim s =
     rev (strip_leading (map rev js_whitespace) (rev (strip_leading js_whitespace s)))"

text \<open>
  The filter of a listing request: a string is parsed when something is left of it after
  trimming, and \<^verbatim>\<open>{}\<close> takes its place when the parsing throws.
\<close>

definition parsed_filter :: "driver \<Rightarrow> jsvalue \<Rightarrow> jsvalue" where
  "parsed_filter drv filter_value =
     (case filter_value of
        VString s \<Rightarrow>
          (if js_trim s \<noteq> []
           then (case JSON_parse drv s of Some v \<Rightarrow> v | None \<Rightarrow> VObject [])
           else filter_value)
      | other \<Rightarrow> filter_value)"

text \<open>
  The document of a create request and the updates of an update request: a string is
  parsed, and \<open>None\<close> is the parsing that throws.
\<close>

definition parsed_payload :: "driver \<Rightarrow> jsvalue \<Rightarrow> jsvalue option" where
  "parsed_payload drv payload =
     (case payload of VString s \<Rightarrow> JSON_parse drv s | other \<Rightarrow> Some payload)"

subsection \<open>The routes\<close>

definition schema_json :: "schema \<Rightarrow> jsvalue" where
  "schema_json sch =
     VObject (map (\<lambda>(field, info).
        (field, VObject [(''types'', VArray (map VString (types info))),
                         (''required'', VNumber (Fin (of_nat (required info)))),
                         (''examples'', VArray (examples info)),
                         (''requiredPercentage'', VNumber (requiredPercentage info))])) sch)"

text \<open>\<^verbatim>\<open>POST /api/collection/documents\<close>. It writes nothing.\<close>

definition list_documents :: "driver \<Rightarrow> crud_request \<Rightarrow> document list \<Rightarrow> response" where
  "list_documents drv req docs =
     (let page = (case body_page req of None \<Rightarrow> 1 | Some p \<Rightarrow> p);
          limit = (case body_limit req of None \<Rightarrow> 20 | Some l \<Rightarrow> l);
          filter_value = (case body_filter req of VUndefined \<Rightarrow> VObject [] | f \<Rightarrow> f)
      in if \<not> truthy (body_connectionString req) \<or> \<not> truthy (body_databaseName req)
            \<or> \<not> truthy (body_collectionName req)
         then (400, VObject [(''error'', VString
                 ''Connection string, database name, and collection name are required'')])
         else case connectToMongoDB drv (body_connectionString req) of
                Some e \<Rightarrow> error_response (''Connection failed: '' @ e)
              | None \<Rightarrow>
           let skip = (page - 1) * limit;
               parsedFilter = parsed_filter drv filter_value
           in case find_cursor drv parsedFilter skip limit docs of
                Inl e \<Rightarrow> error_response e
              | Inr pageDocs \<Rightarrow>
            (case countDocuments drv parsedFilter docs of
               Inl e \<Rightarrow> error_response e
             | Inr totalCount \<Rightarrow>
                 let sampleSize = min 100 totalCount
                 in case find_cursor drv (VObject []) 0 (int sampleSize) docs of
                      Inl e \<Rightarrow> error_response e
                    | Inr sampleDocs \<Rightarrow>
                        (case generateSchema sampleDocs of
                           Inl e \<Rightarrow> error_response e
                         | Inr sch \<Rightarrow>
                             (200, VObject
                                [(''success'', VBoolean True),
                                 (''documents'', VArray (map VObject pageDocs)),
                                 (''pagination'', VObject
                                    [(''currentPage'', VNumber (Fin (of_int page))),
                                     (''totalPages'',
                                        VNumber (Math_ceil (js_div (int totalCount) limit))),
                                     (''totalDocuments'', VNumber (Fin (of_nat totalCount))),
                                     (''documentsPerPage'', VNumber (Fin (of_int limit)))]),
                                 (''schema'', schema_json sch)]))))"

text \<open>
  The writing routes and the reading of one document return the response and the
  documents of the collection afterwards. \<^verbatim>\<open>POST /api/document/create\<close>:
\<close>

definition create_document ::
    "driver \<Rightarrow> crud_request \<Rightarrow> document list \<Rightarrow> response \<times> document list" where
  "create_document drv req docs =
     (if \<not> truthy (body_connectionString req) \<or> \<not> truthy (body_databaseName req)
         \<or> \<not> truthy (body_collectionName req) \<or> \<not> truthy (body_document req)
      then ((400, VObject [(''error'', VString ''All fields are required'')]), docs)
      else case connectToMongoDB drv (body_connectionString req) of
             Some e \<Rightarrow> (error_response (''Connection failed: '' @ e), docs)
           | None \<Rightarrow>
        (case parsed_payload drv (body_document req) of
           None \<Rightarrow> ((400, VObject [(''error'', VString ''Invalid JSON document'')]), docs)
         | Some parsedDocument \<Rightarrow>
             (case insertOne drv parsedDocument docs of
                Inl e \<Rightarrow> (error_response e, docs)
              | Inr (insertedId, docs') \<Rightarrow>
                  ((200, VObject [(''success'', VBoolean True), (''insertedId'', insertedId),
                                  (''message'', VString ''Document created successfully'')]),
                   docs'))))"

text \<open>\<^verbatim>\<open>PUT /api/document/update\<close>.\<close>

definition update_document ::
    "driver \<Rightarrow> crud_request \<Rightarrow> document list \<Rightarrow> response \<times> document list" where
  "update_document drv req docs =
     (if \<not> truthy (body_connectionString req) \<or> \<not> truthy (body_databaseName req)
         \<or> \<not> truthy (body_collectionName req) \<or> \<not> truthy (body_documentId req)
         \<or> \<not> truthy (body_updates req)
      then ((400, VObject [(''error'', VString ''All fields are required'')]), docs)
      else case connectToMongoDB drv (body_connectionString req) of
             Some e \<Rightarrow> (error_response (''Connection failed: '' @ e), docs)
           | None \<Rightarrow>
        (case parsed_payload drv (body_updates req) of
           None \<Rightarrow> ((400, VObject [(''error'', VString ''Invalid JSON updates'')]), docs)
         | Some parsedUpdates \<Rightarrow>
             (case ObjectId drv (body_documentId req) of
                Inl e \<Rightarrow> (error_response e, docs)
              | Inr oid \<Rightarrow>
                  (case updateOne drv (VObject [(''_id'', VObjectId oid)])
                          (VObject [(''$set'', parsedUpdates)]) docs of
                     Inl e \<Rightarrow> (error_response e, docs)
                   | Inr (matchedCount, modifiedCount, docs') \<Rightarrow>
                       if matchedCount = 0
                       then ((404, VObject [(''error'', VString ''Document not found'')]), docs')
                       else ((200, VObject
                                [(''success'', VBoolean True),
                                 (''modifiedCount'', VNumber (Fin (of_nat modifiedCount))),
                                 (''message'', VString ''Document updated successfully'')]),
                             docs')))))"

text \<open>\<^verbatim>\<open>DELETE /api/document/delete\<close>.\<close>

definition delete_document ::
    "driver \<Rightarrow> crud_request \<Rightarrow> document list \<Rightarrow> response \<times> document list" where
  "delete_document drv req docs =
     (if \<not> truthy (body_connectionString req) \<or> \<not> truthy (body_databaseName req)
         \<or> \<not> truthy (body_collectionName req) \<or> \<not> truthy (body_documentId req)
      then ((400, VObject [(''error'', VString ''All fields are required'')]), docs)
      else case connectToMongoDB drv (body_connectionString req) of
             Some e \<Rightarrow> (error_response (''Connection failed: '' @ e), docs)
           | None \<Rightarrow>
        (case ObjectId drv (body_documentId req) of
           Inl e \<Rightarrow> (error_response e, docs)
         | Inr oid \<Rightarrow>
             (case deleteOne drv (VObject [(''_id'', VObjectId oid)]) docs of
                Inl e \<Rightarrow> (error_response e, docs)
              | Inr (deletedCount, docs') \<Rightarrow>
                  if deletedCount = 0
                  then ((404, VObject [(''error'', VString ''Document not found'')]), docs')
                  else ((200, VObject
                           [(''success'', VBoolean True),
                            (''deletedCount'', VNumber (Fin (of_nat deletedCount))),
                            (''message'', VString ''Document deleted successfully'')]),
                        docs'))))"

text \<open>\<^verbatim>\<open>POST /api/document/get\<close>.\<close>

definition get_document ::
    "driver \<Rightarrow> crud_request \<Rightarrow> document list \<Rightarrow> response \<times> document list" where
  "get_document drv req docs =
     (if \<not> truthy (body_connectionString req) \<or> \<not> truthy (body_databaseName req)
         \<or> \<not> truthy (body_collectionName req) \<or> \<not> truthy (body_documentId req)
      then ((400, VObject [(''error'', VString ''All fields are required'')]), docs)
      else case connectToMongoDB drv (body_connectionString req) of
             Some e \<Rightarrow> (error_response (''Connection failed: '' @ e), docs)
           | None \<Rightarrow>
        (case ObjectId drv (body_documentId req) of
           Inl e \<Rightarrow> (error_response e, docs)
         | Inr oid \<Rightarrow>
             (case findOne drv (VObject [(''_id'', VObjectId oid)]) docs of
                Inl e \<Rightarrow> (error_response e, docs)
              | Inr None \<Rightarrow> ((404, VObject [(''error'', VString ''Document not found'')]), docs)
              | Inr (Some doc) \<Rightarrow>
                  ((200, VObject [(''success'', VBoolean True), (''document'', VObject doc)]),
                   docs))))"

subsection \<open>A model of the server\<close>

text \<open>
  What the server does with the operations the routes issue, after its manual, as far as
  the claims reach. A filter is a document of field values, which a document matches when
  it has each of them (query operators are not modelled); anything but a document is
  rejected as a filter.
\<close>

definition is_filter :: "jsvalue \<Rightarrow> bool" where
  "is_filter f = (case f of VObject kvs \<Rightarrow> True | other \<Rightarrow> False)"

definition matches :: "jsvalue \<Rightarrow> document \<Rightarrow> bool" where
  "matches f d =
     (case f of VObject kvs \<Rightarrow> list_all (\<lambda>kv. map_of d (fst kv) = Some (snd kv)) kvs
              | other \<Rightarrow> False)"

definition first_index :: "('a \<Rightarrow> bool) \<Rightarrow> 'a list \<Rightarrow> nat option" where
  "first_index P xs =
     (if list_ex P xs then Some (length (takeWhile (\<lambda>x. \<not> P x) xs)) else None)"

text \<open>A limit of 0 is no limit, a negative limit is its absolute value.\<close>

definition mongo_find :: "jsvalue \<Rightarrow> int \<Rightarrow> int \<Rightarrow> document list \<Rightarrow> string + document list" where
  "mongo_find f skip limit docs =
     (if \<not> is_filter f then Inl ''Query filter must be a plain object or ObjectId''
      else if skip < 0 then Inl ''Operation option skip must be a positive value''
      else let found = drop (nat skip) (filter (matches f) docs)
           in Inr (if limit = 0 then found else take (nat \<bar>limit\<bar>) found))"

definition mongo_countDocuments :: "jsvalue \<Rightarrow> document list \<Rightarrow> string + nat" where
  "mongo_countDocuments f docs =
     (if \<not> is_filter f then Inl ''the match filter must be an expression in an object''
      else Inr (length (filter (matches f) docs)))"

definition mongo_findOne :: "jsvalue \<Rightarrow> document list \<Rightarrow> string + document option" where
  "mongo_findOne f docs =
     (if \<not> is_filter f then Inl ''Query filter must be a plain object or ObjectId''
      else Inr (List.find (matches f) docs))"

definition mongo_deleteOne :: "jsvalue \<Rightarrow> document list \<Rightarrow> string + nat \<times> document list" where
  "mongo_deleteOne f docs =
     (if \<not> is_filter f then Inl ''BSON field delete.deletes.q is the wrong type''
      else case first_index (matches f) docs of
             None \<Rightarrow> Inr (0, docs)
           | Some i \<Rightarrow> Inr (1, take i docs @ drop (Suc i) docs))"

text \<open>
  \<open>gen\<close> stands for the identifier the driver generates for a document that has none.
\<close>

definition mongo_insertOne ::
    "(document list \<Rightarrow> string) \<Rightarrow> jsvalue \<Rightarrow> document list \<Rightarrow> string + jsvalue \<times> document list" where
  "mongo_insertOne gen doc docs =
     (case doc of
        VObject kvs \<Rightarrow>
          (let d = (case map_of kvs ''_id'' of
                      None \<Rightarrow> (''_id'', VObjectId (gen docs)) # kvs
                    | Some i \<Rightarrow> kvs)
           in if list_ex (\<lambda>x. map_of x ''_id'' = map_of d ''_id'') docs
              then Inl ''E11000 duplicate key error''
              else Inr (the (map_of d ''_id''), docs @ [d]))
      | other \<Rightarrow> Inl ''Cannot create property _id'')"

text \<open>
  \<^verbatim>\<open>$set\<close>. A key of its operand is a path of field names separated by dots. A key that is
  one plain field name replaces the value of that top-level field, or adds the field at
  the end of the document. Any other key writes inside the top-level field that its
  first component names; how the server does that (embedded documents, arrays, names it
  refuses) is left to the parameter \<open>sp\<close>, which gets the value the top-level field has,
  the rest of the path and the value to write, and returns the new value of the top-level
  field or an error.
\<close>

definition split_path :: "string \<Rightarrow> string list" where
  "split_path k =
     foldr (\<lambda>c acc. if c = CHR ''.'' then [] # acc else (c # hd acc) # tl acc) k [[]]"

definition top_field :: "string \<Rightarrow> string" where
  "top_field k = takeWhile (\<lambda>c. c \<noteq> CHR ''.'') k"

definition plain_field :: "string \<Rightarrow> bool" where
  "plain_field k \<longleftrightarrow> k \<noteq> [] \<and> CHR ''.'' \<notin> set k \<and> hd k \<noteq> CHR ''$''"

fun set_fields ::
    "(jsvalue option \<Rightarrow> string list \<Rightarrow> jsvalue \<Rightarrow> string + jsvalue) \<Rightarrow>
     document \<Rightarrow> (string \<times> jsvalue) list \<Rightarrow> string + document" where
  "set_fields sp d [] = Inr d"
| "set_fields sp d (kv # kvs) =
     (case (if plain_field (fst kv) then Inr (snd kv)
            else sp (map_of d (top_field (fst kv))) (tl (split_path (fst kv))) (snd kv)) of
        Inl e \<Rightarrow> Inl e
      | Inr v \<Rightarrow> set_fields sp (AList.update (top_field (fst kv)) v d) kvs)"

text \<open>Two keys of which one is a path through the other are refused.\<close>

fun conflicting :: "string list \<Rightarrow> bool" where
  "conflicting [] = False"
| "conflicting (k # ks) =
     (list_ex (\<lambda>k'. prefix (split_path k) (split_path k') \<or> prefix (split_path k') (split_path k)) ks
      \<or> conflicting ks)"

text \<open>
  \<^verbatim>\<open>updateOne\<close> with a \<^verbatim>\<open>$set\<close>: the first document that matches is updated; an update that
  would change its \<^verbatim>\<open>_id\<close> is refused. The result is \<^verbatim>\<open>matchedCount\<close>, \<^verbatim>\<open>modifiedCount\<close> and
  the collection.
\<close>

definition mongo_updateOne ::
    "(jsvalue option \<Rightarrow> string list \<Rightarrow> jsvalue \<Rightarrow> string + jsvalue) \<Rightarrow>
     jsvalue \<Rightarrow> jsvalue \<Rightarrow> document list \<Rightarrow> string + nat \<times> nat \<times> document list" where
  "mongo_updateOne sp f u docs =
     (if \<not> is_filter f then Inl ''BSON field update.updates.q is the wrong type''
      else case u of
             VObject [(modifier, VObject operand)] \<Rightarrow>
               if modifier \<noteq> ''$set'' then Inl ''Unknown modifier''
               else if conflicting (map fst operand)
               then Inl ''Updating the path would create a conflict''
               else (case first_index (matches f) docs of
                       None \<Rightarrow> Inr (0, 0, docs)
                     | Some i \<Rightarrow>
                         (case set_fields sp (docs ! i) operand of
                            Inl e \<Rightarrow> Inl e
                          | Inr d' \<Rightarrow>
                              if map_of d' ''_id'' \<noteq> map_of (docs ! i) ''_id''
                              then Inl ''Performing an update on the path _id would modify the immutable field _id''
                              else Inr (1, if d' = docs ! i then 0 else 1, docs[i := d'])))
           | other \<Rightarrow> Inl ''Modifiers operate on fields but we found another type'')"

subsection \<open>The constructor of object identifiers\<close>

text \<open>
  \<^verbatim>\<open>new ObjectId(inputId)\<close> of the driver's BSON library (version 6), on the values a JSON
  body can hold. A number is taken for a creation time, and a new identifier is generated
  from it; \<open>generate\<close> stands for that generation (its argument is \<open>None\<close> when no time is
  given). A string is accepted when it is 24 hexadecimal digits, and denotes the same
  identifier in upper and in lower case. An object with a property \<^verbatim>\<open>id\<close> is read through
  it. Everything else is rejected.
\<close>

definition hex_digit :: "char \<Rightarrow> bool" where
  "hex_digit c \<longleftrightarrow> c \<in> set ''0123456789abcdefABCDEF''"

definition hex_lower :: "char \<Rightarrow> char" where
  "hex_lower c = (if c \<in> set ''ABCDEF'' then char_of (of_char c + (32::nat)) else c)"

definition bson_ObjectId :: "(jsnum option \<Rightarrow> string) \<Rightarrow> jsvalue \<Rightarrow> string + string" where
  "bson_ObjectId generate inputId =
     (case (case inputId of
              VObject kvs \<Rightarrow>
                (case map_of kvs ''id'' of
                   None \<Rightarrow> Inr inputId
                 | Some (VString i) \<Rightarrow> Inr (VString i)
                 | Some other \<Rightarrow>
                     Inl ''Argument passed in must have an id that is of type string or Buffer'')
            | other \<Rightarrow> Inr inputId) of
        Inl e \<Rightarrow> Inl e
      | Inr workingId \<Rightarrow>
          (case workingId of
             VUndefined \<Rightarrow> Inr (generate None)
           | VNull \<Rightarrow> Inr (generate None)
           | VNumber n \<Rightarrow> Inr (generate (Some n))
           | VString s \<Rightarrow>
               if length s = 24 \<and> list_all hex_digit s then Inr (map hex_lower s)
               else Inl ''input must be a 24 character hex string, 12 byte Uint8Array, or an integer''
           | VObjectId h \<Rightarrow> Inr h
           | other \<Rightarrow> Inl ''Argument passed in does not match the accepted types''))"

subsection \<open>The driver of the examples\<close>

text \<open>
  Its \<^verbatim>\<open>JSON.parse\<close> knows four texts, between white space; every other text of the
  examples is not JSON. Below the top level its \<^verbatim>\<open>$set\<close> writes into embedded documents
  only. The identifier it generates is a fixed one that no document of the examples has.
\<close>

definition example_generate :: "jsnum option \<Rightarrow> string" where
  "example_generate t = ''00003039c0ffee0123000001''"

definition example_JSON_parse :: "string \<Rightarrow> jsvalue option" where
  "example_JSON_parse s =
     map_of [(''{}'', VObject []), (''[]'', VArray []), (''null'', VNull),
             (''7'', VNumber (Fin 7))] (js_trim s)"

fun set_embedded :: "jsvalue option \<Rightarrow> string list \<Rightarrow> jsvalue \<Rightarrow> string + jsvalue" where
  "set_embedded cur [] v = Inr v"
| "set_embedded cur (k # ks) v =
     (case cur of
        None \<Rightarrow>
          (case set_embedded None ks v of Inl e \<Rightarrow> Inl e | Inr x \<Rightarrow> Inr (VObject [(k, x)]))
      | Some (VObject kvs) \<Rightarrow>
          (case set_embedded (map_of kvs k) ks v of
             Inl e \<Rightarrow> Inl e
           | Inr x \<Rightarrow> Inr (VObject (AList.update k x kvs)))
      | Some other \<Rightarrow> Inl ''Cannot create field in element'')"

definition example_set_path :: "jsvalue option \<Rightarrow> string list \<Rightarrow> jsvalue \<Rightarrow> string + jsvalue" where
  "example_set_path cur rest v =
     (if rest = [] then Inl ''The field name is not valid for storage''
      else set_embedded cur rest v)"

definition example_driver :: driver where
  "example_driver =
     \<lparr>connectToMongoDB =
        (\<lambda>cs. case cs of
                 VString s \<Rightarrow>
                   if take 10 s = ''mongodb://'' then None
                   else Some ''Invalid scheme, expected connection string to start with mongodb://''
               | other \<Rightarrow> Some ''Invalid connection string''),
      JSON_parse = example_JSON_parse,
      ObjectId = bson_ObjectId example_generate,
      find_cursor = mongo_find,
      countDocuments = mongo_countDocuments,
      insertOne = mongo_insertOne (\<lambda>docs. ''000000000000000000000000''),
      updateOne = mongo_updateOne example_set_path,
      deleteOne = mongo_deleteOne,
      findOne = mongo_findOne\<rparr>"

definition example_docs :: "document list" where
  "example_docs =
     [[(''_id'', VObjectId ''64b7f0a1c2d3e4f5a6b7c8d9''), (''name'', VString ''pen''),
       (''qty'', VNumber (Fin 3))],
      [(''_id'', VObjectId ''64b7f0a1c2d3e4f5a6b7c8da''), (''name'', VString ''ink''),
       (''qty'', VNumber (Fin 1))]]"

definition base_request :: crud_request where
  "base_request =
     \<lparr>body_connectionString = VString ''mongodb://localhost:27017'',
      body_databaseName = VString ''shop'', body_collectionName = VString ''items'',
      body_documentId = VUndefined, body_updates = VUndefined, body_document = VUndefined,
      body_filter = VUndefined, body_page = None, body_limit = None\<rparr>"

text \<open>
  An update of the first document; a request whose identifier is a string that is not 24
  hexadecimal digits; a request whose identifier is the JSON number 12345.
\<close>

definition update_request :: crud_request where
  "update_request =
     base_request\<lparr>body_documentId := VString ''64b7f0a1c2d3e4f5a6b7c8d9'',
                  body_updates := VObject [(''qty'', VNumber (Fin 7)), (''tag'', VString ''new'')]\<rparr>"

definition malformed_request :: crud_request where
  "malformed_request =
     base_request\<lparr>body_documentId := VString ''not-an-object-id'',
                  body_updates := VObject [(''qty'', VNumber (Fin 7))]\<rparr>"

definition numeric_id_request :: crud_request where
  "numeric_id_request =
     base_request\<lparr>body_documentId := VNumber (Fin 12345),
                  body_updates := VObject [(''qty'', VNumber (Fin 7))]\<rparr>"

text \<open>
  Requests whose payload is a string that is not JSON; a filter of one space and a filter
  of one no-break space.
\<close>

definition bad_filter_request :: crud_request where
  "bad_filter_request = base_request\<lparr>body_filter := VString ''{qty: ''\<rparr>"

definition bad_payload_request :: crud_request where
  "bad_payload_request =
     base_request\<lparr>body_documentId := VString ''64b7f0a1c2d3e4f5a6b7c8d9'',
                  body_updates := VString ''{qty: '', body_document := VString ''{qty: ''\<rparr>"

definition blank_filter_request :: crud_request where
  "blank_filter_request = base_request\<lparr>body_filter := VString '' ''\<rparr>"

definition nbsp_filter_request :: crud_request where
  "nbsp_filter_request = base_request\<lparr>body_filter := VString [CHR 0xC2, CHR 0xA0]\<rparr>"

section \<open>Properties of the clone engine\<close>

subsection \<open>Rounded percentages\<close>



lemma f64_half: "f64 (1 / 2) = 1 / 2"
  by code_simp





subsection \<open>Observations\<close>

lemma await_point_simps [simp]:
  "job (await_point s) = job s"
  "connection_state (await_point s) = connection_state s"
  "trace (await_point s) = trace s @ [job s]"
  by (simp_all add: await_point_def connection_state_def)

lemma extends_with_refl: "trace s' = trace s \<Longrightarrow> extends_with P s s'"
  by (simp add: extends_with_def)

lemma extends_with_trans:
  "extends_with P s s' \<Longrightarrow> extends_with P s' s'' \<Longrightarrow> extends_with P s s''"
  by (auto simp: extends_with_def)

lemma extends_with_await: "P (job s) \<Longrightarrow> extends_with P s (await_point s)"
  by (simp add: extends_with_def)

lemma extends_with_cong:
  "trace t = trace s \<Longrightarrow> extends_with P t s' \<Longrightarrow> extends_with P s s'"
  by (simp add: extends_with_def)

lemma extends_with_mono:
  "extends_with P s s' \<Longrightarrow> (\<And>x. P x \<Longrightarrow> Q x) \<Longrightarrow> extends_with Q s s'"
  by (auto simp: extends_with_def list_all_iff)

lemma cloning_ok_fields [simp]:
  "cloning_ok T (x\<lparr>errors := es\<rparr>) = cloning_ok T x"
  "cloning_ok T (x\<lparr>currentCollection := cc\<rparr>) = cloning_ok T x"
  "cloning_ok T (x\<lparr>details := d\<rparr>) = cloning_ok T x"
  "cloning_ok T (x\<lparr>processedCollections := pc\<rparr>) = cloning_ok T x"
  by (simp_all add: cloning_ok_def)

lemma cloning_ok_batch:
  assumes "cloning_ok T x" "0 < n"
  shows "cloning_ok T (x\<lparr>processedDocuments := processedDocuments x + n,
            progress := percentage (processedDocuments x + n) (totalDocuments x)\<rparr>)"
  using assms by (auto simp: cloning_ok_def)

subsection \<open>The index loop\<close>

lemma copy_indexes_job:
  "job (copy_indexes cn ixs s) =
     (job s)\<lparr>errors := errors (job s) @ index_failure_messages cn ixs\<rparr>"
  by (induction ixs arbitrary: s)
     (auto simp: index_failure_messages_def Let_def split: option.splits)

lemma copy_indexes_conns:
  "connection_state (copy_indexes cn ixs s) = connection_state s"
proof (induction ixs arbitrary: s)
  case Nil
  show ?case by simp
next
  case (Cons ix ixs)
  have "connection_state (t\<lparr>job := j\<rparr>) = connection_state t" for t :: run_state and j
    by (simp add: connection_state_def)
  with Cons show ?case
    by (simp add: Let_def split: option.splits)
qed

lemma copy_indexes_trace:
  "cloning_ok T (job s) \<Longrightarrow> extends_with (cloning_ok T) s (copy_indexes cn ixs s)"
proof (induction ixs arbitrary: s)
  case Nil
  then show ?case by (simp add: extends_with_refl)
next
  case (Cons ix ixs)
  show ?case
  proof (cases "index_name ix \<noteq> ''_id_''")
    case False
    with Cons show ?thesis by simp
  next
    case True
    have a: "extends_with (cloning_ok T) s (await_point s)"
      using Cons.prems by (rule extends_with_await)
    show ?thesis
    proof (cases "createIndex_error ix")
      case None
      with True show ?thesis
        using extends_with_trans[OF a Cons.IH[of "await_point s"]] Cons.prems by simp
    next
      case (Some e)
      let ?s1 = "(await_point s)\<lparr>job := (job s)\<lparr>errors := errors (job s) @
                        [index_error_message (index_name ix) cn e]\<rparr>\<rparr>"
      have "extends_with (cloning_ok T) ?s1 (copy_indexes cn ixs ?s1)"
        using Cons.prems by (intro Cons.IH) simp
      then have "extends_with (cloning_ok T) (await_point s) (copy_indexes cn ixs ?s1)"
        by (rule extends_with_cong[rotated]) simp
      with a have "extends_with (cloning_ok T) s (copy_indexes cn ixs ?s1)"
        by (rule extends_with_trans)
      with True Some show ?thesis by (simp add: Let_def)
    qed
  qed
qed

subsection \<open>The counting loop\<close>

lemma count_documents_job [simp]: "job (fst (count_documents cs n s)) = job s"
  by (induction cs arbitrary: n s) (auto simp: Let_def split: sum.splits)

lemma count_documents_conns:
  "connection_state (fst (count_documents cs n s)) = connection_state s"
  by (induction cs arbitrary: n s) (auto simp: Let_def split: sum.splits)

lemma count_documents_total:
  "count_documents cs n s = (s', Inr t) \<Longrightarrow> t = n + counts_total cs"
proof (induction cs arbitrary: n s)
  case Nil
  then show ?case by (simp add: counts_total_def)
next
  case (Cons c cs)
  from Cons.prems obtain k where k: "countDocuments_result c = Inr k"
    "count_documents cs (n + k) (await_point s) = (s', Inr t)"
    by (auto simp: Let_def split: sum.splits)
  from Cons.IH[OF k(2)] k(1) show ?case by (simp add: counts_total_def)
qed


lemma count_documents_trace:
  "P (job s) \<Longrightarrow> extends_with P s (fst (count_documents cs n s))"
proof (induction cs arbitrary: n s)
  case Nil
  then show ?case by (simp add: extends_with_refl)
next
  case (Cons c cs)
  have a: "extends_with P s (await_point s)"
    using Cons.prems by (rule extends_with_await)
  show ?case
  proof (cases "countDocuments_result c")
    case (Inr k)
    then show ?thesis
      using extends_with_trans[OF a Cons.IH[of "await_point s"]] Cons.prems by simp
  next
    case (Inl e)
    then show ?thesis using a by simp
  qed
qed

subsection \<open>The batch loop\<close>

lemma batch_inserted_simps [simp]:
  "connection_state (batch_inserted n s) = connection_state s"
  "trace (batch_inserted n s) = trace s"
  "job (batch_inserted n s) =
     (job s)\<lparr>processedDocuments := processedDocuments (job s) + n,
             progress := percentage (processedDocuments (job s) + n) (totalDocuments (job s))\<rparr>"
  by (simp_all add: batch_inserted_def Let_def connection_state_def)

lemma insert_batches_done: "\<not> j < length docs \<Longrightarrow> insert_batches c docs j s = (s, None)"
  by simp

lemma insert_batches_fail:
  "j < length docs \<Longrightarrow> insertMany_error c j = Some e \<Longrightarrow>
     insert_batches c docs j s = (await_point s, Some e)"
  by simp

lemma insert_batches_next:
  "j < length docs \<Longrightarrow> insertMany_error c j = None \<Longrightarrow>
     insert_batches c docs j s =
       insert_batches c docs (j + batchSize)
         (batch_inserted (length (take batchSize (drop j docs))) (await_point s))"
  by (simp add: Let_def)

declare insert_batches.simps [simp del]

lemma batch_length:
  "j < length docs \<Longrightarrow>
     0 < length (take batchSize (drop j docs)) \<and>
     length (take batchSize (drop j docs)) + (length docs - (j + batchSize)) = length docs - j \<and>
     length docs - (j + batchSize) < length docs - j"
  by (auto simp: batchSize_def min_def)

lemma insert_batches_conns:
  "connection_state (fst (insert_batches c docs j s)) = connection_state s"
proof (induction "length docs - j" arbitrary: j s rule: less_induct)
  case less
  show ?case
  proof (cases "j < length docs")
    case False
    then show ?thesis by (simp add: insert_batches_done)
  next
    case True
    show ?thesis
    proof (cases "insertMany_error c j")
      case (Some e)
      with True show ?thesis by (simp add: insert_batches_fail)
    next
      case None
      from batch_length[OF True] have "length docs - (j + batchSize) < length docs - j"
        by simp
      from less.hyps[OF this] True None show ?thesis
        by (simp add: insert_batches_next)
    qed
  qed
qed

lemma insert_batches_other_fields:
  "errors (job (fst (insert_batches c docs j s))) = errors (job s) \<and>
   processedCollections (job (fst (insert_batches c docs j s))) = processedCollections (job s)"
proof (induction "length docs - j" arbitrary: j s rule: less_induct)
  case less
  show ?case
  proof (cases "j < length docs")
    case False
    then show ?thesis by (simp add: insert_batches_done)
  next
    case True
    show ?thesis
    proof (cases "insertMany_error c j")
      case (Some e)
      with True show ?thesis by (simp add: insert_batches_fail)
    next
      case None
      from batch_length[OF True] have "length docs - (j + batchSize) < length docs - j"
        by simp
      from less.hyps[OF this] True None show ?thesis
        by (simp add: insert_batches_next)
    qed
  qed
qed


lemma insert_batches_counters:
  "snd (insert_batches c docs j s) = None \<Longrightarrow>
     processedDocuments (job (fst (insert_batches c docs j s))) =
       processedDocuments (job s) + (length docs - j)"
proof (induction "length docs - j" arbitrary: j s rule: less_induct)
  case less
  show ?case
  proof (cases "j < length docs")
    case False
    then show ?thesis by (simp add: insert_batches_done)
  next
    case True
    show ?thesis
    proof (cases "insertMany_error c j")
      case (Some e)
      with True less.prems show ?thesis by (simp add: insert_batches_fail)
    next
      case None
      let ?s2 = "batch_inserted (length (take batchSize (drop j docs))) (await_point s)"
      from True None less.prems
      have rec: "snd (insert_batches c docs (j + batchSize) ?s2) = None"
        by (simp add: insert_batches_next)
      note b = batch_length[OF True]
      from b have "length docs - (j + batchSize) < length docs - j" by simp
      from less.hyps[OF this rec] True None b show ?thesis
        by (simp add: insert_batches_next)
    qed
  qed
qed

lemma insert_batches_trace:
  "cloning_ok T (job s) \<Longrightarrow>
     extends_with (cloning_ok T) s (fst (insert_batches c docs j s)) \<and>
     cloning_ok T (job (fst (insert_batches c docs j s)))"
proof (induction "length docs - j" arbitrary: j s rule: less_induct)
  case less
  show ?case
  proof (cases "j < length docs")
    case False
    with less.prems show ?thesis by (simp add: insert_batches_done extends_with_refl)
  next
    case True
    have a: "extends_with (cloning_ok T) s (await_point s)"
      using less.prems by (rule extends_with_await)
    show ?thesis
    proof (cases "insertMany_error c j")
      case (Some e)
      with True a less.prems show ?thesis by (simp add: insert_batches_fail)
    next
      case None
      let ?n = "length (take batchSize (drop j docs))"
      let ?s2 = "batch_inserted ?n (await_point s)"
      note b = batch_length[OF True]
      from b have n: "0 < ?n" by simp
      from cloning_ok_batch[OF less.prems n]
      have ok2: "cloning_ok T (job ?s2)"
        by simp
      from b have dec: "length docs - (j + batchSize) < length docs - j" by simp
      from less.hyps[OF dec ok2]
      have ih: "extends_with (cloning_ok T) ?s2 (fst (insert_batches c docs (j + batchSize) ?s2))"
        "cloning_ok T (job (fst (insert_batches c docs (j + batchSize) ?s2)))"
        by simp_all
      from ih(1) have "extends_with (cloning_ok T) (await_point s)
           (fst (insert_batches c docs (j + batchSize) ?s2))"
        by (rule extends_with_cong[rotated]) simp
      with a have "extends_with (cloning_ok T) s (fst (insert_batches c docs (j + batchSize) ?s2))"
        by (rule extends_with_trans)
      with ih(2) True None show ?thesis
        by (simp add: insert_batches_next)
    qed
  qed
qed

subsection \<open>The loop over the collections\<close>

lemma docs_total_simps [simp]:
  "docs_total [] = 0"
  "docs_total (c # cs) = length (documents c) + docs_total cs"
  by (simp_all add: docs_total_def)

lemma clone_collections_Cons:
  "clone_collections (c # cs) s =
     (case find_error c of
        Some e \<Rightarrow> (fetched c s, Some e)
      | None \<Rightarrow>
          (case snd (inserted c s) of
             Some e \<Rightarrow> (fst (inserted c s), Some e)
           | None \<Rightarrow>
               (case listIndexes_error c of
                  Some e \<Rightarrow> (await_point (fst (inserted c s)), Some e)
                | None \<Rightarrow> clone_collections cs (collection_done c (fst (inserted c s))))))"
  by (simp add: fetched_def inserted_def collection_done_def Let_def
           split: option.splits prod.splits)

declare clone_collections.simps(2) [simp del]

lemma fetched_simps [simp]:
  "connection_state (fetched c s) = connection_state s"
  "job (fetched c s) = (job s)\<lparr>currentCollection := Some (coll_name c),
        details := ''Cloning collection: '' @ coll_name c\<rparr>"
  by (simp_all add: fetched_def connection_state_def await_point_def)

lemma inserted_conns: "connection_state (fst (inserted c s)) = connection_state s"
  by (simp add: inserted_def insert_batches_conns)

lemma collection_done_job:
  "job (collection_done c s) =
     (job s)\<lparr>errors := errors (job s) @ index_failure_messages (coll_name c) (indexes c),
             processedCollections := processedCollections (job s) + 1\<rparr>"
  by (simp add: collection_done_def Let_def copy_indexes_job)

lemma collection_done_conns: "connection_state (collection_done c s) = connection_state s"
proof -
  have "connection_state (t\<lparr>job := j\<rparr>) = connection_state t" for t :: run_state and j
    by (simp add: connection_state_def)
  then show ?thesis
    by (simp add: collection_done_def Let_def copy_indexes_conns)
qed

lemma clone_collections_conns:
  "connection_state (fst (clone_collections cs s)) = connection_state s"
proof (induction cs arbitrary: s)
  case Nil
  show ?case by simp
next
  case (Cons c cs)
  show ?case
    by (simp add: clone_collections_Cons Cons.IH inserted_conns collection_done_conns
             split: option.splits)
qed

lemma inserted_counters:
  assumes "snd (inserted c s) = None"
  shows "processedDocuments (job (fst (inserted c s))) =
           processedDocuments (job s) + length (documents c)"
proof (cases "0 < length (documents c)")
  case True
  with assms have "snd (insert_batches c (documents c) 0 (fetched c s)) = None"
    by (simp add: inserted_def)
  from insert_batches_counters[OF this] True show ?thesis by (simp add: inserted_def)
next
  case False
  then show ?thesis by (simp add: inserted_def)
qed

lemma inserted_other_fields:
  "errors (job (fst (inserted c s))) = errors (job s) \<and>
   processedCollections (job (fst (inserted c s))) = processedCollections (job s)"
  by (simp add: inserted_def insert_batches_other_fields)


lemma clone_collections_counters:
  "snd (clone_collections cs s) = None \<Longrightarrow>
     processedCollections (job (fst (clone_collections cs s))) =
       processedCollections (job s) + length cs \<and>
     processedDocuments (job (fst (clone_collections cs s))) =
       processedDocuments (job s) + docs_total cs"
proof (induction cs arbitrary: s)
  case Nil
  show ?case by simp
next
  case (Cons c cs)
  from Cons.prems have ok: "find_error c = None" "snd (inserted c s) = None"
    "listIndexes_error c = None"
    and rec: "snd (clone_collections cs (collection_done c (fst (inserted c s)))) = None"
    by (auto simp: clone_collections_Cons split: option.splits)
  from Cons.IH[OF rec] inserted_counters[OF ok(2)] inserted_other_fields[of c s] ok show ?case
    by (simp add: clone_collections_Cons collection_done_job)
qed


lemma fetched_trace:
  "cloning_ok T (job s) \<Longrightarrow> extends_with (cloning_ok T) s (fetched c s)"
  by (simp add: extends_with_def fetched_def await_point_def)

lemma inserted_trace:
  assumes "cloning_ok T (job s)"
  shows "extends_with (cloning_ok T) s (fst (inserted c s)) \<and>
         cloning_ok T (job (fst (inserted c s)))"
proof -
  have f: "cloning_ok T (job (fetched c s))"
    using assms by simp
  note e = fetched_trace[OF assms, of c]
  show ?thesis
  proof (cases "0 < length (documents c)")
    case True
    from insert_batches_trace[OF f, of c "documents c" 0]
    have "extends_with (cloning_ok T) (fetched c s)
            (fst (insert_batches c (documents c) 0 (fetched c s)))"
      "cloning_ok T (job (fst (insert_batches c (documents c) 0 (fetched c s))))"
      by simp_all
    with e True show ?thesis
      by (auto simp: inserted_def intro: extends_with_trans)
  next
    case False
    with e f show ?thesis by (simp add: inserted_def)
  qed
qed

lemma collection_done_trace:
  assumes "cloning_ok T (job s)"
  shows "extends_with (cloning_ok T) s (collection_done c s) \<and>
         cloning_ok T (job (collection_done c s))"
proof -
  have a: "extends_with (cloning_ok T) s (await_point s)"
    using assms by (rule extends_with_await)
  have "extends_with (cloning_ok T) (await_point s)
          (copy_indexes (coll_name c) (indexes c) (await_point s))"
    using assms by (intro copy_indexes_trace) simp
  with a have "extends_with (cloning_ok T) s
      (copy_indexes (coll_name c) (indexes c) (await_point s))"
    by (rule extends_with_trans)
  then have "extends_with (cloning_ok T) s (collection_done c s)"
    by (simp add: extends_with_def collection_done_def Let_def)
  with assms show ?thesis by (simp add: collection_done_job)
qed

lemma clone_collections_trace:
  "cloning_ok T (job s) \<Longrightarrow>
     extends_with (cloning_ok T) s (fst (clone_collections cs s)) \<and>
     cloning_ok T (job (fst (clone_collections cs s)))"
proof (induction cs arbitrary: s)
  case Nil
  then show ?case by (simp add: extends_with_refl)
next
  case (Cons c cs)
  let ?si = "fst (inserted c s)"
  note ok0 = Cons.prems
  have f: "extends_with (cloning_ok T) s (fetched c s)" "cloning_ok T (job (fetched c s))"
    using fetched_trace[OF ok0] ok0 by simp_all
  from inserted_trace[OF ok0]
  have i: "extends_with (cloning_ok T) s ?si" "cloning_ok T (job ?si)"
    by simp_all
  show ?case
  proof (cases "find_error c")
    case (Some e)
    with f show ?thesis by (simp add: clone_collections_Cons)
  next
    case fnd: None
    show ?thesis
    proof (cases "snd (inserted c s)")
      case (Some e)
      with fnd i show ?thesis by (simp add: clone_collections_Cons)
    next
      case ins: None
      show ?thesis
      proof (cases "listIndexes_error c")
        case (Some e)
        have "extends_with (cloning_ok T) s (await_point ?si)"
          using i(1) extends_with_await[of "cloning_ok T" ?si, OF i(2)]
          by (rule extends_with_trans)
        with fnd ins Some i(2) show ?thesis by (simp add: clone_collections_Cons)
      next
        case None
        let ?sd = "collection_done c ?si"
        from collection_done_trace[OF i(2), of c]
        have d: "extends_with (cloning_ok T) ?si ?sd" "cloning_ok T (job ?sd)"
          by simp_all
        from Cons.IH[OF d(2)] i(1) d(1) fnd ins None show ?thesis
          by (auto simp: clone_collections_Cons intro: extends_with_trans)
      qed
    qed
  qed
qed

subsection \<open>The order of the statuses\<close>

lemma status_forward_refl [simp]: "status_forward a a"
  by (simp add: status_forward_def)

lemma status_forward_trans:
  "status_forward a b \<Longrightarrow> status_forward b c \<Longrightarrow> status_forward a c"
  by (auto simp: status_forward_def)

lemma trace_forward_stage:
  assumes "trace_forward s" "status_forward (status (job s)) st"
    "extends_with (\<lambda>x. status x = st) s s'" "status (job s') = st"
  shows "trace_forward s'"
proof -
  from assms(3) obtain ext where ext: "trace s' = trace s @ ext"
    "list_all (\<lambda>x. status x = st) ext"
    by (auto simp: extends_with_def)
  have "sorted_wrt status_forward (map status ext)"
    using ext(2) by (induction ext) (auto simp: list_all_iff)
  moreover have "status_forward (status x) st" if "x \<in> set (trace s)" for x
    using assms(1,2) that by (auto simp: trace_forward_def list_all_iff intro: status_forward_trans)
  ultimately show ?thesis
    using assms(1,4) ext by (auto simp: trace_forward_def sorted_wrt_append list_all_iff)
qed

subsection \<open>The stages of the run\<close>

lemma connect_clients_job:
  "job (fst (connect_clients env s)) =
     (job s)\<lparr>status := Connecting, details := ''Connecting to source and target databases...''\<rparr>"
  by (simp add: connect_clients_def Let_def split: option.splits)

lemma connect_clients_trace:
  "extends_with (counters_kept Connecting (job s)) s (fst (connect_clients env s))"
  by (simp add: connect_clients_def Let_def extends_with_def counters_kept_def await_point_def
           split: option.splits)

lemma connect_clients_conns:
  assumes "connection_state s = (None, None, [], [])"
  shows "connection_state (fst (connect_clients env s)) =
     (case source_connect_error env of
        Some e \<Rightarrow> (None, None, [], [])
      | None \<Rightarrow> (case target_connect_error env of
                   Some e \<Rightarrow> (Some SourceConnection, None, [SourceConnection], [])
                 | None \<Rightarrow> (Some SourceConnection, Some TargetConnection,
                            [SourceConnection, TargetConnection], [])))"
  using assms
  by (simp add: connect_clients_def Let_def connection_state_def await_point_def
           split: option.splits)


lemma analyze_conns: "connection_state (fst (analyze env s)) = connection_state s"
proof -
  have "connection_state (t\<lparr>job := j\<rparr>) = connection_state t" for t :: run_state and j
    by (simp add: connection_state_def)
  then show ?thesis
    by (simp add: analyze_def Let_def split_beta count_documents_conns
             split: option.splits sum.splits)
qed

lemma analyze_job:
  "status (job (fst (analyze env s))) = Analyzing \<and>
   progress (job (fst (analyze env s))) = progress (job s) \<and>
   processedDocuments (job (fst (analyze env s))) = processedDocuments (job s) \<and>
   processedCollections (job (fst (analyze env s))) = processedCollections (job s) \<and>
   errors (job (fst (analyze env s))) = errors (job s)"
  by (simp add: analyze_def Let_def split_beta split: option.splits sum.splits)


lemma analyze_total:
  assumes "snd (analyze env s) = None"
  shows "totalDocuments (job (fst (analyze env s))) = counts_total (source_collections env) \<and>
         totalCollections (job (fst (analyze env s))) = length (source_collections env)"
proof -
  let ?s2 = "(await_point (s\<lparr>job := (job s)\<lparr>status := Analyzing,
                 details := ''Analyzing source database structure...''\<rparr>\<rparr>))
              \<lparr>job := (job s)\<lparr>status := Analyzing,
                 details := ''Analyzing source database structure...'',
                 totalCollections := length (source_collections env),
                 collections := map coll_name (source_collections env)\<rparr>\<rparr>"
  obtain s3 r where c: "count_documents (source_collections env) 0 ?s2 = (s3, r)"
    by (cases "count_documents (source_collections env) 0 ?s2")
  from assms c obtain t where r: "r = Inr t" "listCollections_error env = None"
    by (auto simp: analyze_def Let_def split: option.splits sum.splits)
  from count_documents_total[OF c[unfolded r(1)]]
  have t: "t = counts_total (source_collections env)"
    by simp
  have "job s3 = job ?s2"
    using count_documents_job[of "source_collections env" 0 ?s2] c by simp
  with c r t show ?thesis
    by (simp add: analyze_def Let_def)
qed


lemma analyze_trace:
  "extends_with (counters_kept Analyzing (job s)) s (fst (analyze env s))"
proof -
  let ?s1 = "await_point (s\<lparr>job := (job s)\<lparr>status := Analyzing,
                 details := ''Analyzing source database structure...''\<rparr>\<rparr>)"
  let ?s2 = "?s1\<lparr>job := (job ?s1)\<lparr>totalCollections := length (source_collections env),
                 collections := map coll_name (source_collections env)\<rparr>\<rparr>"
  have a: "extends_with (counters_kept Analyzing (job s)) s ?s1"
    by (simp add: extends_with_def counters_kept_def await_point_def)
  have "extends_with (counters_kept Analyzing (job s)) ?s2
          (fst (count_documents (source_collections env) 0 ?s2))"
    by (rule count_documents_trace) (simp add: counters_kept_def)
  then have "extends_with (counters_kept Analyzing (job s)) ?s1
          (fst (count_documents (source_collections env) 0 ?s2))"
    by (rule extends_with_cong[rotated]) simp
  with a have b: "extends_with (counters_kept Analyzing (job s)) s
          (fst (count_documents (source_collections env) 0 ?s2))"
    by (rule extends_with_trans)
  show ?thesis
  proof (cases "listCollections_error env")
    case (Some e)
    with a show ?thesis by (simp add: analyze_def Let_def)
  next
    case None
    with b show ?thesis
      by (simp add: analyze_def Let_def split_beta extends_with_def split: sum.splits)
  qed
qed

lemma clone_all_cases:
  obtains (failed) e where
      "snd (clone_collections (source_collections env) (cloning_started env s)) = Some e"
      "clone_all env dbName s =
         (fst (clone_collections (source_collections env) (cloning_started env s)), Some e)"
  | (completed)
      "snd (clone_collections (source_collections env) (cloning_started env s)) = None"
      "clone_all env dbName s =
         (completed env dbName
            (fst (clone_collections (source_collections env) (cloning_started env s))), None)"
  by (cases "snd (clone_collections (source_collections env) (cloning_started env s))")
     (auto simp: clone_all_def cloning_started_def completed_def Let_def split_beta)

lemma clone_try_cases:
  obtains (connect_failed) e where
      "snd (connect_clients env s0) = Some e"
      "clone_try env dbName s0 = (fst (connect_clients env s0), Some e)"
  | (analyze_failed) e where
      "snd (connect_clients env s0) = None"
      "snd (analyze env (fst (connect_clients env s0))) = Some e"
      "clone_try env dbName s0 = (fst (analyze env (fst (connect_clients env s0))), Some e)"
  | (cloning)
      "snd (connect_clients env s0) = None"
      "snd (analyze env (fst (connect_clients env s0))) = None"
      "clone_try env dbName s0 =
         clone_all env dbName (fst (analyze env (fst (connect_clients env s0))))"
proof (cases "snd (connect_clients env s0)")
  case (Some e)
  then show ?thesis
    by (intro connect_failed[of e]) (auto simp: clone_try_def split_beta)
next
  case c: None
  show ?thesis
  proof (cases "snd (analyze env (fst (connect_clients env s0)))")
    case (Some e)
    with c show ?thesis
      by (intro analyze_failed[of e]) (auto simp: clone_try_def split_beta)
  next
    case None
    with c show ?thesis
      by (intro cloning) (auto simp: clone_try_def split_beta)
  qed
qed

lemma cloneDatabase_unfold:
  "cloneDatabase env dbName j =
     await_point (clone_finally env
       (case snd (clone_try env dbName (initial_state j)) of
          None \<Rightarrow> fst (clone_try env dbName (initial_state j))
        | Some msg \<Rightarrow> clone_catch env msg (fst (clone_try env dbName (initial_state j)))))"
  by (simp add: cloneDatabase_def initial_state_def Let_def split_beta split: option.splits)

lemma completed_simps [simp]:
  "connection_state (completed env dbName s) = connection_state s"
  "trace (completed env dbName s) = trace s"
  "status (job (completed env dbName s)) = Completed"
  "progress (job (completed env dbName s)) = Fin 100"
  "processedDocuments (job (completed env dbName s)) = processedDocuments (job s)"
  "processedCollections (job (completed env dbName s)) = processedCollections (job s)"
  "totalDocuments (job (completed env dbName s)) = totalDocuments (job s)"
  "totalCollections (job (completed env dbName s)) = totalCollections (job s)"
  "errors (job (completed env dbName s)) = errors (job s)"
  by (simp_all add: completed_def connection_state_def)

lemma cloning_started_simps [simp]:
  "connection_state (cloning_started env s) = connection_state s"
  "trace (cloning_started env s) = trace s"
  "status (job (cloning_started env s)) = Cloning"
  "progress (job (cloning_started env s)) = progress (job s)"
  "processedDocuments (job (cloning_started env s)) = processedDocuments (job s)"
  "processedCollections (job (cloning_started env s)) = processedCollections (job s)"
  "totalDocuments (job (cloning_started env s)) = totalDocuments (job s)"
  "totalCollections (job (cloning_started env s)) = totalCollections (job s)"
  "errors (job (cloning_started env s)) = errors (job s)"
  by (simp_all add: cloning_started_def connection_state_def)

lemma clone_catch_simps [simp]:
  "connection_state (clone_catch env msg s) = connection_state s"
  "trace (clone_catch env msg s) = trace s"
  "status (job (clone_catch env msg s)) = Failed"
  "progress (job (clone_catch env msg s)) = progress (job s)"
  "processedDocuments (job (clone_catch env msg s)) = processedDocuments (job s)"
  "totalDocuments (job (clone_catch env msg s)) = totalDocuments (job s)"
  "errors (job (clone_catch env msg s)) = errors (job s) @ [msg]"
  by (simp_all add: clone_catch_def connection_state_def)

lemma clone_finally_job [simp]: "job (clone_finally env s) = job s"
  by (simp add: clone_finally_def close_target_def close_connection_def Let_def
           split: option.splits)

lemma clone_finally_trace: "extends_with (\<lambda>x. x = job s) s (clone_finally env s)"
  by (simp add: clone_finally_def close_target_def close_connection_def Let_def
        extends_with_def await_point_def split: option.splits)

subsection \<open>Connections\<close>

lemma clone_try_conns:
  assumes "connection_state s0 = (None, None, [], [])"
  shows "connection_state (fst (clone_try env dbName s0)) =
     (case source_connect_error env of
        Some e \<Rightarrow> (None, None, [], [])
      | None \<Rightarrow> (case target_connect_error env of
                   Some e \<Rightarrow> (Some SourceConnection, None, [SourceConnection], [])
                 | None \<Rightarrow> (Some SourceConnection, Some TargetConnection,
                            [SourceConnection, TargetConnection], [])))"
proof (cases rule: clone_try_cases[of env s0 dbName])
  case (connect_failed e)
  then show ?thesis by (simp add: connect_clients_conns[OF assms])
next
  case (analyze_failed e)
  then show ?thesis by (simp add: analyze_conns connect_clients_conns[OF assms])
next
  case cloning
  let ?s2 = "fst (analyze env (fst (connect_clients env s0)))"
  have "connection_state (fst (clone_all env dbName ?s2)) = connection_state ?s2"
    by (cases rule: clone_all_cases[of env ?s2 dbName]) (simp_all add: clone_collections_conns)
  with cloning show ?thesis by (simp add: analyze_conns connect_clients_conns[OF assms])
qed

lemma clone_finally_closes:
  assumes "connection_state s =
     (case source_connect_error env of
        Some e \<Rightarrow> (None, None, [], [])
      | None \<Rightarrow> (case target_connect_error env of
                   Some e \<Rightarrow> (Some SourceConnection, None, [SourceConnection], [])
                 | None \<Rightarrow> (Some SourceConnection, Some TargetConnection,
                            [SourceConnection, TargetConnection], [])))"
    and "source_close_error env = None" "target_close_error env = None"
  shows "open_connections (clone_finally env s) = [] \<and>
         closed_connections (clone_finally env s) = connections_opened env"
  using assms
  by (auto simp: clone_finally_def close_target_def close_connection_def connection_state_def
        Let_def connections_opened_def await_point_def split: option.splits)

text \<open>When no \<^verbatim>\<open>close\<close> rejects, a run ends with every connection it opened closed.\<close>

lemma cloneDatabase_releases:
  assumes "source_close_error env = None" "target_close_error env = None"
  shows "open_connections (cloneDatabase env dbName j) = [] \<and>
         closed_connections (cloneDatabase env dbName j) = connections_opened env"
proof -
  let ?t = "clone_try env dbName (initial_state j)"
  let ?s1 = "case snd ?t of None \<Rightarrow> fst ?t | Some msg \<Rightarrow> clone_catch env msg (fst ?t)"
  have "connection_state (initial_state j) = (None, None, [], [])"
    by (simp add: initial_state_def connection_state_def)
  from clone_try_conns[OF this, of env dbName]
  have "connection_state ?s1 =
     (case source_connect_error env of
        Some e \<Rightarrow> (None, None, [], [])
      | None \<Rightarrow> (case target_connect_error env of
                   Some e \<Rightarrow> (Some SourceConnection, None, [SourceConnection], [])
                 | None \<Rightarrow> (Some SourceConnection, Some TargetConnection,
                            [SourceConnection, TargetConnection], [])))"
    by (cases "snd ?t") simp_all
  from clone_finally_closes[OF this assms] show ?thesis
    by (simp add: cloneDatabase_unfold await_point_def)
qed

subsection \<open>Statuses along a run\<close>

lemma counters_kept_status: "counters_kept st j0 x \<Longrightarrow> status x = st"
  by (simp add: counters_kept_def)

lemma cloning_ok_status: "cloning_ok T x \<Longrightarrow> status x = Cloning"
  by (simp add: cloning_ok_def)

lemma clone_try_forward:
  assumes "trace_forward s0" "fresh (job s0)"
  shows "trace_forward (fst (clone_try env dbName s0)) \<and>
         (case snd (clone_try env dbName s0) of
            None \<Rightarrow> status (job (fst (clone_try env dbName s0))) = Completed
          | Some e \<Rightarrow> \<not> terminal (status (job (fst (clone_try env dbName s0)))))"
proof -
  let ?s1 = "fst (connect_clients env s0)"
  let ?s2 = "fst (analyze env ?s1)"
  let ?s3 = "cloning_started env ?s2"
  let ?s4 = "fst (clone_collections (source_collections env) ?s3)"
  let ?T = "counts_total (source_collections env)"
  from assms(2) have st0: "status (job s0) = Starting" by (simp add: fresh_def)
  have f1: "trace_forward ?s1" "status (job ?s1) = Connecting"
  proof -
    show "status (job ?s1) = Connecting" by (simp add: connect_clients_job)
    then show "trace_forward ?s1"
      using trace_forward_stage[OF assms(1), of Connecting ?s1]
        extends_with_mono[OF connect_clients_trace[of s0 env], of "\<lambda>x. status x = Connecting"]
        st0
      by (auto simp: status_forward_def status_rank_def terminal_def dest: counters_kept_status)
  qed
  have f2: "trace_forward ?s2" "status (job ?s2) = Analyzing"
  proof -
    show "status (job ?s2) = Analyzing" by (simp add: analyze_job)
    then show "trace_forward ?s2"
      using trace_forward_stage[OF f1(1), of Analyzing ?s2]
        extends_with_mono[OF analyze_trace[of ?s1 env], of "\<lambda>x. status x = Analyzing"]
        f1(2)
      by (auto simp: status_forward_def status_rank_def terminal_def dest: counters_kept_status)
  qed
  show ?thesis
  proof (cases rule: clone_try_cases[of env s0 dbName])
    case (connect_failed e)
    with f1 show ?thesis by (simp add: terminal_def)
  next
    case (analyze_failed e)
    with f2 show ?thesis by (simp add: terminal_def)
  next
    case cloning
    from cloning(2) have tot: "totalDocuments (job ?s2) = ?T"
      by (simp add: analyze_total)
    have "processedDocuments (job ?s2) = 0" "progress (job ?s2) = Fin 0"
      using assms(2) by (simp_all add: analyze_job connect_clients_job fresh_def)
    with tot have "cloning_ok ?T (job ?s3)"
      by (simp add: cloning_ok_def)
    from clone_collections_trace[OF this]
    have e: "extends_with (cloning_ok ?T) ?s3 ?s4" and j: "status (job ?s4) = Cloning"
      by (auto simp: cloning_ok_def)
    from e have "extends_with (\<lambda>x. status x = Cloning) ?s2 ?s4"
      by (intro extends_with_cong[of ?s3 ?s2, OF _ extends_with_mono[OF e]])
         (simp_all add: cloning_ok_status)
    from trace_forward_stage[OF f2(1) _ this j] f2(2)
    have f4: "trace_forward ?s4"
      by (simp add: status_forward_def status_rank_def terminal_def)
    show ?thesis
    proof (cases rule: clone_all_cases[of env ?s2 dbName])
      case (failed e)
      with cloning f4 j show ?thesis by (simp add: terminal_def)
    next
      case completed
      have "trace_forward (completed env dbName ?s4)"
        using f4 j
        by (auto simp: trace_forward_def list_all_iff status_forward_def status_rank_def
              terminal_def split: job_status.splits)
      with cloning completed show ?thesis by simp
    qed
  qed
qed

lemma trace_forward_initial: "trace_forward (initial_state j)"
  by (simp add: trace_forward_def initial_state_def)

lemma cloneDatabase_forward:
  assumes "fresh j"
  shows "trace_forward (cloneDatabase env dbName j) \<and>
         terminal (status (job (cloneDatabase env dbName j)))"
proof -
  let ?t = "clone_try env dbName (initial_state j)"
  let ?s1 = "case snd ?t of None \<Rightarrow> fst ?t | Some msg \<Rightarrow> clone_catch env msg (fst ?t)"
  have "fresh (job (initial_state j))"
    using assms by (simp add: initial_state_def)
  from clone_try_forward[OF trace_forward_initial this, of env dbName]
  have t: "trace_forward (fst ?t)"
    "case snd ?t of None \<Rightarrow> status (job (fst ?t)) = Completed
        | Some e \<Rightarrow> \<not> terminal (status (job (fst ?t)))"
    by simp_all
  have s1: "trace_forward ?s1 \<and> terminal (status (job ?s1))"
  proof (cases "snd ?t")
    case None
    with t show ?thesis by (simp add: terminal_def)
  next
    case (Some msg)
    with t(2) have nt: "\<not> terminal (status (job (fst ?t)))" by simp
    have "trace_forward (clone_catch env msg (fst ?t))"
      using t(1) nt
      by (auto simp: trace_forward_def list_all_iff status_forward_def status_rank_def
            terminal_def split: job_status.splits)
    with Some show ?thesis by (simp add: terminal_def)
  qed
  have "extends_with (\<lambda>x. status x = status (job ?s1)) ?s1 (clone_finally env ?s1)"
    by (rule extends_with_mono[OF clone_finally_trace]) simp
  from trace_forward_stage[OF conjunct1[OF s1] _ this]
  have "trace_forward (clone_finally env ?s1)"
    by simp
  from trace_forward_stage[OF this _ extends_with_await, of "status (job ?s1)"] s1
  show ?thesis
    by (simp add: cloneDatabase_unfold)
qed

subsection \<open>Progress along a run\<close>







subsection \<open>Counters and the error log of a run\<close>

lemma cloneDatabase_job:
  "job (cloneDatabase env dbName j) =
     (case snd (clone_try env dbName (initial_state j)) of
        None \<Rightarrow> job (fst (clone_try env dbName (initial_state j)))
      | Some msg \<Rightarrow> job (clone_catch env msg (fst (clone_try env dbName (initial_state j)))))"
  by (simp add: cloneDatabase_unfold split: option.splits)

lemma clone_try_counters:
  assumes "fresh (job s0)" "snd (clone_try env dbName s0) = None"
  shows "processedCollections (job (fst (clone_try env dbName s0))) =
           length (source_collections env) \<and>
         processedDocuments (job (fst (clone_try env dbName s0))) =
           docs_total (source_collections env)"
proof (cases rule: clone_try_cases[of env s0 dbName])
  case (connect_failed e)
  with assms(2) show ?thesis by simp
next
  case (analyze_failed e)
  with assms(2) show ?thesis by simp
next
  case cloning
  let ?s1 = "fst (connect_clients env s0)"
  let ?s2 = "fst (analyze env ?s1)"
  let ?s3 = "cloning_started env ?s2"
  have j2: "processedDocuments (job ?s2) = 0" "processedCollections (job ?s2) = 0"
    using assms(1) by (simp_all add: analyze_job connect_clients_job fresh_def)
  show ?thesis
  proof (cases rule: clone_all_cases[of env ?s2 dbName])
    case (failed e)
    with cloning assms(2) show ?thesis by simp
  next
    case completed
    from clone_collections_counters[OF completed(1)] cloning completed j2
    show ?thesis by simp
  qed
qed


section \<open>The claims about the job tracker and the clone engine\<close>

lemma fresh_new_job: "fresh (new_job jobId now)"
  by (simp add: fresh_def new_job_def)

lemma cloneDatabase_last: "last (trace (cloneDatabase env dbName j)) = job (cloneDatabase env dbName j)"
  by (simp add: cloneDatabase_unfold)

lemma cloneDatabase_first: "hd (trace (cloneDatabase env dbName j)) = j"
proof -
  have e: "extends_with (\<lambda>x. True) s (fst (clone_try env dbName s))" for s
  proof (cases rule: clone_try_cases[of env s dbName])
    case (connect_failed e)
    with extends_with_mono[OF connect_clients_trace[of s env], of "\<lambda>x. True"]
    show ?thesis by simp
  next
    case (analyze_failed e)
    with extends_with_trans[OF
        extends_with_mono[OF connect_clients_trace[of s env], of "\<lambda>x. True"]
        extends_with_mono[OF analyze_trace[of "fst (connect_clients env s)" env], of "\<lambda>x. True"]]
    show ?thesis by simp
  next
    case cloning
    let ?s2 = "fst (analyze env (fst (connect_clients env s)))"
    let ?s4 = "fst (clone_collections (source_collections env) (cloning_started env ?s2))"
    have a: "extends_with (\<lambda>x. True) s ?s2"
      using extends_with_trans[OF
        extends_with_mono[OF connect_clients_trace[of s env], of "\<lambda>x. True"]
        extends_with_mono[OF analyze_trace[of "fst (connect_clients env s)" env], of "\<lambda>x. True"]]
      by simp
    have b: "extends_with (\<lambda>x. True) t (fst (clone_collections cs t))" for cs t
    proof (induction cs arbitrary: t)
      case Nil
      show ?case by (simp add: extends_with_refl)
    next
      case (Cons c cs)
      have i: "extends_with (\<lambda>x. True) u (fst (insert_batches c docs k u))" for docs k u
      proof (induction "length docs - k" arbitrary: k u rule: less_induct)
        case less
        show ?case
        proof (cases "k < length docs")
          case False
          then show ?thesis by (simp add: insert_batches_done extends_with_refl)
        next
          case True
          show ?thesis
          proof (cases "insertMany_error c k")
            case (Some e)
            with True show ?thesis by (simp add: insert_batches_fail extends_with_def)
          next
            case None
            from batch_length[OF True]
            have "length docs - (k + batchSize) < length docs - k" by simp
            from less.hyps[OF this,
                of "batch_inserted (length (take batchSize (drop k docs))) (await_point u)"]
              True None show ?thesis
              by (auto simp: insert_batches_next extends_with_def list_all_iff)
          qed
        qed
      qed
      have f: "extends_with (\<lambda>x. True) t (fetched c t)"
        by (simp add: fetched_def extends_with_def await_point_def)
      have ins: "extends_with (\<lambda>x. True) t (fst (inserted c t))"
        using f extends_with_trans[OF f i[of "fetched c t" "documents c" 0]]
        by (simp add: inserted_def)
      have ci: "extends_with (\<lambda>x. True) u (copy_indexes cn ixs u)" for cn ixs u
      proof (induction ixs arbitrary: u)
        case Nil
        show ?case by (simp add: extends_with_refl)
      next
        case (Cons ix ixs)
        have "extends_with (\<lambda>x. True) u
                (copy_indexes cn ixs ((await_point u)\<lparr>job := j'\<rparr>))" for j'
          using Cons.IH[of "(await_point u)\<lparr>job := j'\<rparr>"]
          by (auto simp: extends_with_def list_all_iff)
        moreover have "extends_with (\<lambda>x. True) u (copy_indexes cn ixs (await_point u))"
          using Cons.IH[of "await_point u"] by (auto simp: extends_with_def list_all_iff)
        ultimately show ?case
          using Cons.IH[of u] by (simp add: Let_def split: option.splits)
      qed
      have d: "extends_with (\<lambda>x. True) u (collection_done c u)" for u
        using ci[of "await_point u" "coll_name c" "indexes c"]
        by (auto simp: collection_done_def Let_def extends_with_def list_all_iff)
      have aw: "extends_with (\<lambda>x. True) u (await_point u)" for u
        by (simp add: extends_with_def)
      show ?case
        using f ins extends_with_trans[OF ins aw]
          extends_with_trans[OF extends_with_trans[OF ins d] Cons.IH]
        by (simp add: clone_collections_Cons split: option.splits)
    qed
    have "extends_with (\<lambda>x. True) ?s2 ?s4"
      using b[of "cloning_started env ?s2" "source_collections env"]
      by (simp add: extends_with_def)
    with a have "extends_with (\<lambda>x. True) s ?s4" by (rule extends_with_trans)
    then show ?thesis
      using cloning
      by (cases rule: clone_all_cases[of env ?s2 dbName]) (simp_all add: extends_with_def)
  qed
  let ?t = "clone_try env dbName (initial_state j)"
  let ?s1 = "case snd ?t of None \<Rightarrow> fst ?t | Some msg \<Rightarrow> clone_catch env msg (fst ?t)"
  have "extends_with (\<lambda>x. True) (initial_state j) ?s1"
    using e[of "initial_state j"] by (cases "snd ?t") (simp_all add: extends_with_def)
  from extends_with_trans[OF this extends_with_mono[OF clone_finally_trace[of ?s1 env], of "\<lambda>x. True"]]
  have "extends_with (\<lambda>x. True) (initial_state j) (clone_finally env ?s1)" by simp
  then show ?thesis
    by (auto simp: cloneDatabase_unfold extends_with_def initial_state_def)
qed

text \<open>
  Claim C1. When a clone run over a source database with N collections and D documents
  in total reaches the status \<open>Completed\<close>, the job has \<open>processedCollections = N\<close> and
  \<open>processedDocuments = D\<close>. (The hypothesis is only that the run ends completed; that it
  met no failure follows.)
\<close>

theorem C1_counters_on_completed:
  assumes "status (job (cloneDatabase env dbName (new_job jobId now))) = Completed"
  shows "processedCollections (job (cloneDatabase env dbName (new_job jobId now))) =
           length (source_collections env) \<and>
         processedDocuments (job (cloneDatabase env dbName (new_job jobId now))) =
           docs_total (source_collections env)"
proof -
  let ?t = "clone_try env dbName (initial_state (new_job jobId now))"
  from assms have ok: "snd ?t = None"
    by (cases "snd ?t") (simp_all add: cloneDatabase_job)
  have "fresh (job (initial_state (new_job jobId now)))"
    by (simp add: initial_state_def fresh_new_job)
  from clone_try_counters[OF this ok] ok show ?thesis
    by (simp add: cloneDatabase_job)
qed

theorem C1_witness:
  "status (job (cloneDatabase example_env ''db'' (new_job ''1000'' 1000))) = Completed \<and>
   processedCollections (job (cloneDatabase example_env ''db'' (new_job ''1000'' 1000))) = 2 \<and>
   processedDocuments (job (cloneDatabase example_env ''db'' (new_job ''1000'' 1000))) = 2"
proof -
  have h: "status (job (cloneDatabase example_env ''db'' (new_job ''1000'' 1000))) = Completed"
    by code_simp
  have n: "length (source_collections example_env) = 2"
    "docs_total (source_collections example_env) = 2"
    by code_simp+
  from C1_counters_on_completed[OF h] h n show ?thesis by simp
qed




text \<open>
  Claim C3. The statuses a clone job is observed with, from its creation on, go forward
  in the order starting, connecting, analyzing, cloning, then completed or failed: an
  observation never has a status before that of an earlier one, and after completed or
  failed the status stays what it is. The first status is starting, and the run ends in
  completed or failed.
\<close>

theorem C3_status_forward:
  "sorted_wrt status_forward
     (map status (trace (cloneDatabase env dbName (new_job jobId now)))) \<and>
   status (hd (trace (cloneDatabase env dbName (new_job jobId now)))) = Starting \<and>
   terminal (status (last (trace (cloneDatabase env dbName (new_job jobId now)))))"
  using cloneDatabase_forward[OF fresh_new_job, of env dbName jobId now]
  by (simp add: trace_forward_def cloneDatabase_last cloneDatabase_first new_job_def)

theorem C3_witness:
  "map status (trace (cloneDatabase view_env ''db'' (new_job ''1000'' 1000))) =
     [Starting, Connecting, Connecting, Analyzing, Analyzing, Cloning, Cloning, Cloning,
      Failed, Failed, Failed] \<and>
   sorted_wrt status_forward
     (map status (trace (cloneDatabase view_env ''db'' (new_job ''1000'' 1000))))"
proof -
  have "map status (trace (cloneDatabase view_env ''db'' (new_job ''1000'' 1000))) =
     [Starting, Connecting, Connecting, Analyzing, Analyzing, Cloning, Cloning, Cloning,
      Failed, Failed, Failed]"
    by code_simp
  with conjunct1[OF C3_status_forward[of view_env "''db''" "''1000''" 1000]]
  show ?thesis by (rule conjI[rotated])
qed



text \<open>
  Claim C9, which the code breaks. The claim: on every exit path both connections that
  were opened are released before the run ends. The \<^verbatim>\<open>finally\<close> block awaits
  \<^verbatim>\<open>sourceClient.close()\<close> and then \<^verbatim>\<open>targetClient.close()\<close>, with nothing around either: when
  the first rejects, the second is never called. Here the clone itself completes, the
  close of the source client rejects, and the run ends with the target connection open:
  it has not been closed.
\<close>

theorem C9_target_left_open:
  "status (job (cloneDatabase close_rejects_env ''db'' (new_job ''1000'' 1000))) = Completed \<and>
   rejection (cloneDatabase close_rejects_env ''db'' (new_job ''1000'' 1000)) =
     Some ''Topology is closed'' \<and>
   targetClient (cloneDatabase close_rejects_env ''db'' (new_job ''1000'' 1000)) =
     Some TargetConnection \<and>
   TargetConnection \<in> set (open_connections
     (cloneDatabase close_rejects_env ''db'' (new_job ''1000'' 1000))) \<and>
   TargetConnection \<notin> set (closed_connections
     (cloneDatabase close_rejects_env ''db'' (new_job ''1000'' 1000)))"
  by code_simp

text \<open>
  Claim C4, which the code breaks. The claim: every create allocates a fresh identifier,
  and an identifier never refers to a second job. The code takes the identifier from the
  clock: after two requests within one millisecond there are two job objects with the same
  identifier, and the tracker has a single entry, which refers to the second; the first
  job, whose clone is running, can no longer be reached.
\<close>

theorem C4_identifier_reused:
  "map job_id (heap after_first_request) = [''1700000000000''] \<and>
   cloningJobs after_first_request = [(''1700000000000'', 0)] \<and>
   map job_id (heap after_second_request) = [''1700000000000'', ''1700000000000''] \<and>
   cloningJobs after_second_request = [(''1700000000000'', 1)] \<and>
   length (list_jobs after_second_request) = 1"
proof -
  have digits: "char_of (48::nat) = CHR ''0''" "char_of (49::nat) = CHR ''1''"
    "char_of (55::nat) = CHR ''7''"
    by code_simp+
  have jobId: "nat_toString 1700000000000 = ''1700000000000''"
    by (simp add: digits)
  have first: "after_first_request =
      \<lparr>heap = [new_job ''1700000000000'' 1700000000000],
       cloningJobs = [(''1700000000000'', 0)]\<rparr>"
    by (simp add: after_first_request_def post_clone_database_def example_request_def
          empty_tracker_def jobId Let_def del: nat_toString.simps)
  have second: "after_second_request =
      \<lparr>heap = [new_job ''1700000000000'' 1700000000000, new_job ''1700000000000'' 1700000000000],
       cloningJobs = [(''1700000000000'', 1)]\<rparr>"
    by (simp add: after_second_request_def first post_clone_database_def example_request_def
          jobId Let_def del: nat_toString.simps)
  show ?thesis
    by (simp add: first second new_job_def list_jobs_def)
qed

section \<open>Properties of the schema inference\<close>

lemma take3_snoc:
  "take 3 (xs @ [v]) = (if length (take 3 xs) < 3 then take 3 xs @ [v] else take 3 xs)"
  by (cases "length xs < 3") auto

lemma add_field_tracks:
  assumes "tracks schema vs" "add_field schema (k, v) = Inr schema'"
  shows "tracks schema' (vs(k := vs k @ [v]))"
proof -
  let ?schema1 = "if k \<notin> set Object_prototype_keys \<and> map_of schema k = None
                  then schema @ [(k, \<lparr>types = [], required = 0, examples = []\<rparr>)]
                  else schema"
  from assms(2) obtain ty entry where
    ty: "type_of v = Inr ty" and
    k: "k \<notin> set Object_prototype_keys" and
    e: "map_of ?schema1 k = Some entry" and
    s': "schema' = AList.update k
           (if length (examples entry) < 3
            then entry\<lparr>types := set_add ty (types entry), required := required entry + 1,
                       examples := examples entry @ [v]\<rparr>
            else entry\<lparr>types := set_add ty (types entry), required := required entry + 1\<rparr>)
           ?schema1"
    by (auto simp: add_field_def Let_def split: sum.splits option.splits if_splits)
  have other: "map_of ?schema1 f = map_of schema f" if "f \<noteq> k" for f
    using that by (auto simp: map_of_append map_add_def split: option.splits)
  have ent: "examples entry = take 3 (vs k) \<and> required entry = length (vs k)"
  proof (cases "map_of schema k")
    case None
    with assms(1) have "vs k = []"
      by (auto simp: tracks_def dest: spec[of _ k])
    with None k e show ?thesis by (auto simp: map_of_append map_add_def)
  next
    case (Some e0)
    with assms(1) have "examples e0 = take 3 (vs k) \<and> required e0 = length (vs k)"
      by (auto simp: tracks_def dest: spec[of _ k])
    with Some e show ?thesis by simp
  qed
  show ?thesis
    unfolding tracks_def
  proof
    fix f
    show "case map_of schema' f of
            None \<Rightarrow> (vs(k := vs k @ [v])) f = []
          | Some e \<Rightarrow> examples e = take 3 ((vs(k := vs k @ [v])) f) \<and>
                       required e = length ((vs(k := vs k @ [v])) f)"
    proof (cases "f = k")
      case True
      with ent show ?thesis
        by (simp add: s' update_conv' take3_snoc split: option.splits)
    next
      case False
      from assms(1) have "case map_of schema f of
            None \<Rightarrow> vs f = []
          | Some e \<Rightarrow> examples e = take 3 (vs f) \<and> required e = length (vs f)"
        by (simp add: tracks_def)
      with False other[OF False] show ?thesis
        by (simp add: s' update_conv' split: option.splits)
    qed
  qed
qed

lemma field_values_simps:
  "field_values f [] = []"
  "field_values f ([] # docs) = field_values f docs"
  "field_values f (((k, v) # d) # docs) =
     (if k = f then v # field_values f (d # docs) else field_values f (d # docs))"
  by (simp_all add: field_values_def)

lemma add_fields_tracks:
  "tracks schema vs \<Longrightarrow> add_fields schema d = Inr schema' \<Longrightarrow>
     tracks schema' (\<lambda>f. vs f @ field_values f [d])"
proof (induction d arbitrary: schema vs)
  case Nil
  then show ?case by (simp add: field_values_simps)
next
  case (Cons fv d)
  obtain k v where fv: "fv = (k, v)" by (cases fv)
  from Cons.prems(2) obtain schema1 where
    s1: "add_field schema (k, v) = Inr schema1" and rest: "add_fields schema1 d = Inr schema'"
    by (auto simp: fv split: sum.splits)
  from Cons.IH[OF add_field_tracks[OF Cons.prems(1) s1] rest]
  have "tracks schema' (\<lambda>f. (vs(k := vs k @ [v])) f @ field_values f [d])" .
  moreover have "(\<lambda>f. (vs(k := vs k @ [v])) f @ field_values f [d]) =
                 (\<lambda>f. vs f @ field_values f [fv # d])"
    by (auto simp: fv field_values_def)
  ultimately show ?case by simp
qed

lemma add_documents_tracks:
  "tracks schema vs \<Longrightarrow> add_documents schema docs = Inr schema' \<Longrightarrow>
     tracks schema' (\<lambda>f. vs f @ field_values f docs)"
proof (induction docs arbitrary: schema vs)
  case Nil
  then show ?case by (simp add: field_values_simps)
next
  case (Cons d docs)
  from Cons.prems(2) obtain schema1 where
    s1: "add_fields schema d = Inr schema1" and rest: "add_documents schema1 docs = Inr schema'"
    by (auto split: sum.splits)
  from Cons.IH[OF add_fields_tracks[OF Cons.prems(1) s1] rest]
  have "tracks schema' (\<lambda>f. (vs f @ field_values f [d]) @ field_values f docs)" .
  moreover have "(\<lambda>f. (vs f @ field_values f [d]) @ field_values f docs) =
                 (\<lambda>f. vs f @ field_values f (d # docs))"
    by (auto simp: field_values_def)
  ultimately show ?case by simp
qed

lemma map_of_with_percentage:
  "map_of (map (\<lambda>(field, entry). (field, with_percentage n entry)) schema) f =
     map_option (with_percentage n) (map_of schema f)"
  by (induction schema) auto

lemma generateSchema_field:
  assumes "generateSchema docs = Inr S" "map_of S field = Some info"
  shows "examples info = take 3 (field_values field docs) \<and>
         required info = length (field_values field docs) \<and>
         requiredPercentage info = percentage (required info) (length docs)"
proof (cases "length docs = 0")
  case True
  with assms show ?thesis by (simp add: generateSchema_def)
next
  case False
  with assms(1) obtain schema where
    a: "add_documents [] docs = Inr schema" and
    S: "S = map (\<lambda>(field, entry). (field, with_percentage (length docs) entry)) schema"
    by (auto simp: generateSchema_def split: sum.splits)
  have "tracks [] (\<lambda>f. [])" by (simp add: tracks_def)
  from add_documents_tracks[OF this a] have t: "tracks schema (\<lambda>f. field_values f docs)"
    by simp
  from assms(2) obtain e where e: "map_of schema field = Some e"
    "info = with_percentage (length docs) e"
    by (auto simp: S map_of_with_percentage)
  from t e(1) have "examples e = take 3 (field_values field docs) \<and>
      required e = length (field_values field docs)"
    by (auto simp: tracks_def dest: spec[of _ field])
  with e(2) show ?thesis by (simp add: with_percentage_def)
qed

text \<open>
  Claim C6. Schema inference over an empty sample returns the empty mapping, not an
  error. Over the sample \<^verbatim>\<open>[{a: 1}, {a: "x", b: true}]\<close> it returns field \<open>a\<close> with percentage
  100 and the types number and string, and field \<open>b\<close> with percentage 50 and the type
  boolean. Whenever it returns a schema, the examples of every field are the first three
  values of that field in the sample, in the order of the documents.
\<close>

theorem C6_schema_inference:
  "generateSchema [] = Inr [] \<and>
   generateSchema example_sample =
     Inr [(''a'', \<lparr>types = [''number'', ''string''], required = 2,
                   examples = [VNumber (Fin 1), VString ''x''],
                   requiredPercentage = Fin 100\<rparr>),
          (''b'', \<lparr>types = [''boolean''], required = 1, examples = [VBoolean True],
                   requiredPercentage = Fin 50\<rparr>)] \<and>
   (generateSchema docs = Inr S \<and> map_of S field = Some info \<longrightarrow>
      examples info = take 3 (field_values field docs) \<and> length (examples info) \<le> 3)"
proof -
  have a: "generateSchema [] = Inr []"
    by (simp add: generateSchema_def)
  have b: "generateSchema example_sample =
     Inr [(''a'', \<lparr>types = [''number'', ''string''], required = 2,
                   examples = [VNumber (Fin 1), VString ''x''],
                   requiredPercentage = Fin 100\<rparr>),
          (''b'', \<lparr>types = [''boolean''], required = 1, examples = [VBoolean True],
                   requiredPercentage = Fin 50\<rparr>)]"
    by code_simp
  have c: "examples info = take 3 (field_values field docs) \<and> length (examples info) \<le> 3"
    if "generateSchema docs = Inr S" "map_of S field = Some info"
    using generateSchema_field[OF that] by simp
  from a b c show ?thesis by blast
qed

theorem C6_witness:
  "generateSchema long_sample =
     Inr [(''k'', \<lparr>types = [''number''], required = 5,
                   examples = [VNumber (Fin 1), VNumber (Fin 2), VNumber (Fin 3)],
                   requiredPercentage = Fin 100\<rparr>)] \<and>
   take 3 (field_values ''k'' long_sample) = [VNumber (Fin 1), VNumber (Fin 2), VNumber (Fin 3)]"
proof -
  let ?info = "\<lparr>types = [''number''], required = 5,
                 examples = [VNumber (Fin 1), VNumber (Fin 2), VNumber (Fin 3)],
                 requiredPercentage = Fin 100\<rparr>"
  have g: "generateSchema long_sample = Inr [(''k'', ?info)]"
    by code_simp
  have m: "map_of [(''k'', ?info)] ''k'' = Some ?info"
    by simp
  from C6_schema_inference[of long_sample "[(''k'', ?info)]" "''k''" ?info] g m
  have "examples ?info = take 3 (field_values ''k'' long_sample)"
    by blast
  with g show ?thesis by simp
qed

section \<open>The claims about the document routes\<close>

text \<open>
  The routes leave the judgement of an identifier to the constructor, inside their
  \<^verbatim>\<open>try\<close>: whatever it rejects is answered with status 400, and the collection is what it
  was.
\<close>

lemma rejected_identifier_is_client_error:
  assumes "ObjectId drv (body_documentId req) = Inl e"
  shows "fst (fst (update_document drv req docs)) = 400 \<and>
         snd (update_document drv req docs) = docs \<and>
         fst (fst (delete_document drv req docs)) = 400 \<and>
         snd (delete_document drv req docs) = docs \<and>
         fst (fst (get_document drv req docs)) = 400 \<and>
         snd (get_document drv req docs) = docs"
proof -
  have u: "fst (fst (update_document drv req docs)) = 400 \<and>
           snd (update_document drv req docs) = docs"
    using assms by (simp add: update_document_def error_response_def split: option.splits)
  have d: "fst (fst (delete_document drv req docs)) = 400 \<and>
           snd (delete_document drv req docs) = docs"
    using assms by (simp add: delete_document_def error_response_def split: option.splits)
  have g: "fst (fst (get_document drv req docs)) = 400 \<and>
           snd (get_document drv req docs) = docs"
    using assms by (simp add: get_document_def error_response_def split: option.splits)
  from u d g show ?thesis by simp
qed

text \<open>The constructor rejects every string that is not 24 hexadecimal digits.\<close>

lemma bson_ObjectId_string:
  "\<not> (length s = 24 \<and> list_all hex_digit s) \<Longrightarrow>
     bson_ObjectId generate (VString s) =
       Inl ''input must be a 24 character hex string, 12 byte Uint8Array, or an integer''"
  by (simp add: bson_ObjectId_def)

lemma malformed_string_is_client_error:
  "fst (fst (update_document example_driver malformed_request example_docs)) = 400 \<and>
   snd (update_document example_driver malformed_request example_docs) = example_docs \<and>
   fst (fst (delete_document example_driver malformed_request example_docs)) = 400 \<and>
   snd (delete_document example_driver malformed_request example_docs) = example_docs \<and>
   fst (fst (get_document example_driver malformed_request example_docs)) = 400 \<and>
   snd (get_document example_driver malformed_request example_docs) = example_docs"
proof -
  have h: "ObjectId example_driver (body_documentId malformed_request) =
     Inl ''input must be a 24 character hex string, 12 byte Uint8Array, or an integer''"
    by code_simp
  from rejected_identifier_is_client_error[OF h, of example_docs] show ?thesis by simp
qed

text \<open>The constructor accepts every number, whatever the generation yields.\<close>

lemma bson_ObjectId_number:
  "bson_ObjectId generate (VNumber n) = Inr (generate (Some n))"
  by (simp add: bson_ObjectId_def)

text \<open>
  Claim C7. An update, delete or get request with a malformed identifier is to be
  answered with status 400, not 404. The routes test the identifier for truthiness only
  and hand it to \<^verbatim>\<open>new ObjectId\<close>, which takes a number for a creation time and generates an
  identifier from it. So a request whose \<^verbatim>\<open>documentId\<close> is the JSON number 12345, which is
  not an identifier in the database's encoding, is not rejected: the three routes look
  for the generated identifier, find no document and answer with status 404, not 400.
  The documents of the collection are what they were.
\<close>

theorem C7_numeric_identifier_not_found:
  "body_documentId numeric_id_request = VNumber (Fin 12345) \<and>
   ObjectId example_driver (body_documentId numeric_id_request) =
     Inr ''00003039c0ffee0123000001'' \<and>
   fst (fst (update_document example_driver numeric_id_request example_docs)) = 404 \<and>
   snd (update_document example_driver numeric_id_request example_docs) = example_docs \<and>
   fst (fst (delete_document example_driver numeric_id_request example_docs)) = 404 \<and>
   snd (delete_document example_driver numeric_id_request example_docs) = example_docs \<and>
   fst (fst (get_document example_driver numeric_id_request example_docs)) = 404 \<and>
   snd (get_document example_driver numeric_id_request example_docs) = example_docs"
  by code_simp

text \<open>
  The request passes the tests the routes make of their input, and its answer is not the
  client error.
\<close>

theorem C7_witness:
  "truthy (body_connectionString numeric_id_request) \<and>
   truthy (body_databaseName numeric_id_request) \<and>
   truthy (body_collectionName numeric_id_request) \<and>
   truthy (body_documentId numeric_id_request) \<and>
   truthy (body_updates numeric_id_request) \<and>
   fst (fst (update_document example_driver numeric_id_request example_docs)) \<noteq> 400 \<and>
   fst (fst (delete_document example_driver numeric_id_request example_docs)) \<noteq> 400 \<and>
   fst (fst (get_document example_driver numeric_id_request example_docs)) \<noteq> 400"
proof -
  have g: "truthy (body_connectionString numeric_id_request) \<and>
     truthy (body_databaseName numeric_id_request) \<and>
     truthy (body_collectionName numeric_id_request) \<and>
     truthy (body_documentId numeric_id_request) \<and>
     truthy (body_updates numeric_id_request)"
    by code_simp
  from C7_numeric_identifier_not_found g show ?thesis by simp
qed

text \<open>
  Claim C8, as amended. A listing request whose filter is a string that has a character
  other than white space and that fails to parse as JSON is answered exactly as the same
  request with the filter \<^verbatim>\<open>{}\<close>: no error is reported for the filter. A create request whose
  document, and an update request whose updates, is a string that fails to parse as JSON
  is answered with status 400, and the collection is what it was.
\<close>

theorem C8_unparsable_payloads:
  assumes "JSON_parse drv s = None"
  shows "(body_filter req = VString s \<and> js_trim s \<noteq> [] \<longrightarrow>
            parsed_filter drv (body_filter req) = VObject [] \<and>
            list_documents drv req docs = list_documents drv (req\<lparr>body_filter := VObject []\<rparr>) docs) \<and>
         (body_document req = VString s \<longrightarrow>
            fst (fst (create_document drv req docs)) = 400 \<and>
            snd (create_document drv req docs) = docs) \<and>
         (body_updates req = VString s \<longrightarrow>
            fst (fst (update_document drv req docs)) = 400 \<and>
            snd (update_document drv req docs) = docs)"
proof -
  have l: "parsed_filter drv (body_filter req) = VObject [] \<and>
        list_documents drv req docs = list_documents drv (req\<lparr>body_filter := VObject []\<rparr>) docs"
    if "body_filter req = VString s" "js_trim s \<noteq> []"
  proof -
    have p: "parsed_filter drv (VString s) = VObject []"
      using assms that(2) by (simp add: parsed_filter_def)
    have q: "parsed_filter drv (VObject []) = VObject []"
      by (simp add: parsed_filter_def)
    show ?thesis
      using that(1) p q
      by (simp add: list_documents_def Let_def cong: option.case_cong sum.case_cong)
  qed
  have c: "fst (fst (create_document drv req docs)) = 400 \<and>
           snd (create_document drv req docs) = docs"
    if "body_document req = VString s"
    using assms that
    by (simp add: create_document_def parsed_payload_def error_response_def
          split: option.splits)
  have u: "fst (fst (update_document drv req docs)) = 400 \<and>
           snd (update_document drv req docs) = docs"
    if "body_updates req = VString s"
    using assms that
    by (simp add: update_document_def parsed_payload_def error_response_def
          split: option.splits)
  from l c u show ?thesis by blast
qed

theorem C8_witness:
  "JSON_parse example_driver ''{qty: '' = None \<and>
   js_trim ''{qty: '' = ''{qty:'' \<and>
   parsed_filter example_driver (body_filter bad_filter_request) = VObject [] \<and>
   list_documents example_driver bad_filter_request example_docs =
     list_documents example_driver (bad_filter_request\<lparr>body_filter := VObject []\<rparr>) example_docs \<and>
   fst (list_documents example_driver bad_filter_request example_docs) = 200 \<and>
   fst (fst (create_document example_driver bad_payload_request example_docs)) = 400 \<and>
   snd (create_document example_driver bad_payload_request example_docs) = example_docs \<and>
   fst (fst (update_document example_driver bad_payload_request example_docs)) = 400 \<and>
   snd (update_document example_driver bad_payload_request example_docs) = example_docs"
proof -
  have h: "JSON_parse example_driver ''{qty: '' = None"
    by code_simp
  have t: "js_trim ''{qty: '' = ''{qty:''"
    by code_simp
  have f: "body_filter bad_filter_request = VString ''{qty: ''"
    "body_document bad_payload_request = VString ''{qty: ''"
    "body_updates bad_payload_request = VString ''{qty: ''"
    by (simp_all add: bad_filter_request_def bad_payload_request_def base_request_def)
  have ok: "fst (list_documents example_driver bad_filter_request example_docs) = 200"
    by code_simp
  note a = C8_unparsable_payloads[OF h, of bad_filter_request example_docs]
  note b = C8_unparsable_payloads[OF h, of bad_payload_request example_docs]
  from a f(1) t have 1: "parsed_filter example_driver (body_filter bad_filter_request) = VObject [] \<and>
     list_documents example_driver bad_filter_request example_docs =
     list_documents example_driver (bad_filter_request\<lparr>body_filter := VObject []\<rparr>) example_docs"
    by simp
  from b f(2,3) have 2: "fst (fst (create_document example_driver bad_payload_request example_docs)) = 400 \<and>
   snd (create_document example_driver bad_payload_request example_docs) = example_docs \<and>
   fst (fst (update_document example_driver bad_payload_request example_docs)) = 400 \<and>
   snd (update_document example_driver bad_payload_request example_docs) = example_docs"
    by simp
  from h t 1 2 ok show ?thesis by simp
qed

text \<open>
  The claim as stated fails on a filter of white space only: the string of one space is
  not empty and does not parse as JSON, but the guard \<^verbatim>\<open>filter.trim()\<close> keeps it from being
  parsed, so the string itself, not \<^verbatim>\<open>{}\<close>, is handed to \<^verbatim>\<open>find\<close>; with a server that refuses
  a string as a filter the answer is the client error 400.
\<close>

theorem C8_counterexample:
  "body_filter blank_filter_request = VString '' '' \<and>
   JSON_parse example_driver '' '' = None \<and>
   parsed_filter example_driver (body_filter blank_filter_request) = VString '' '' \<and>
   parsed_filter example_driver (body_filter blank_filter_request) \<noteq> VObject [] \<and>
   fst (list_documents example_driver blank_filter_request example_docs) = 400"
  by code_simp

text \<open>
  The same holds of a filter of one no-break space (U+00A0), which \<^verbatim>\<open>trim\<close> removes as
  well.
\<close>

lemma nbsp_filter_not_parsed:
  "js_trim [CHR 0xC2, CHR 0xA0] = [] \<and>
   parsed_filter example_driver (body_filter nbsp_filter_request) =
     VString [CHR 0xC2, CHR 0xA0] \<and>
   fst (list_documents example_driver nbsp_filter_request example_docs) = 400"
  by code_simp

subsection \<open>The update of one document\<close>

lemma first_index_Some:
  "first_index P xs = Some i \<Longrightarrow> i < length xs \<and> P (xs ! i)"
proof (induction xs arbitrary: i)
  case Nil
  then show ?case by (simp add: first_index_def)
next
  case (Cons x xs)
  show ?case
  proof (cases "P x")
    case True
    with Cons.prems show ?thesis by (simp add: first_index_def)
  next
    case False
    with Cons.prems obtain j where j: "first_index P xs = Some j" "i = Suc j"
      by (auto simp: first_index_def split: if_splits)
    from Cons.IH[OF j(1)] j(2) show ?thesis by simp
  qed
qed

lemma matches_id: "matches (VObject [(''_id'', v)]) d \<longleftrightarrow> map_of d ''_id'' = Some v"
  by (simp add: matches_def)

lemma top_field_plain: "plain_field k \<Longrightarrow> top_field k = k"
  by (auto simp: plain_field_def top_field_def)

lemma set_fields_frame:
  "set_fields sp d kvs = Inr d' \<Longrightarrow> f \<notin> top_field ` set (map fst kvs) \<Longrightarrow>
     map_of d' f = map_of d f"
proof (induction kvs arbitrary: d)
  case Nil
  then show ?case by simp
next
  case (Cons kv kvs)
  from Cons.prems(1) obtain v where
    rest: "set_fields sp (AList.update (top_field (fst kv)) v d) kvs = Inr d'"
    by (auto split: sum.splits)
  from Cons.prems(2) have "f \<noteq> top_field (fst kv)" "f \<notin> top_field ` set (map fst kvs)"
    by auto
  with Cons.IH[OF rest] show ?case
    by (simp add: update_conv')
qed

lemma set_fields_written:
  "set_fields sp d kvs = Inr d' \<Longrightarrow> list_all plain_field (map fst kvs) \<Longrightarrow>
     distinct (map fst kvs) \<Longrightarrow> (k, v) \<in> set kvs \<Longrightarrow> map_of d' k = Some v"
proof (induction kvs arbitrary: d)
  case Nil
  then show ?case by simp
next
  case (Cons kv kvs)
  from Cons.prems(2) have pl: "plain_field (fst kv)" "list_all plain_field (map fst kvs)"
    by simp_all
  from Cons.prems(1) pl(1)
  have rest: "set_fields sp (AList.update (fst kv) (snd kv) d) kvs = Inr d'"
    by (simp add: top_field_plain)
  show ?case
  proof (cases "(k, v) \<in> set kvs")
    case True
    from Cons.IH[OF rest pl(2) _ True] Cons.prems(3) show ?thesis by simp
  next
    case False
    with Cons.prems(4) have kv: "kv = (k, v)" by simp
    have "top_field k' = k'" if "k' \<in> set (map fst kvs)" for k'
      using pl(2) that by (auto simp: list_all_iff top_field_plain)
    then have "top_field ` set (map fst kvs) = set (map fst kvs)"
      by (simp add: image_def)
    with Cons.prems(3) kv have "k \<notin> top_field ` set (map fst kvs)"
      by simp
    from set_fields_frame[OF rest this] kv show ?thesis
      by (simp add: update_conv')
  qed
qed

lemma mongo_updateOne_set:
  assumes "mongo_updateOne sp (VObject [(''_id'', v)]) (VObject [(''$set'', pu)]) docs =
             Inr (m, n, docs')" "m \<noteq> 0"
  shows "\<exists>operand i. pu = VObject operand \<and> i < length docs \<and>
           map_of (docs ! i) ''_id'' = Some v \<and>
           set_fields sp (docs ! i) operand = Inr (docs' ! i) \<and>
           map_of (docs' ! i) ''_id'' = map_of (docs ! i) ''_id'' \<and>
           docs' = docs[i := docs' ! i]"
proof -
  from assms(1) obtain operand where pu: "pu = VObject operand"
    by (cases pu) (simp_all add: mongo_updateOne_def is_filter_def)
  from assms obtain i where i: "first_index (matches (VObject [(''_id'', v)])) docs = Some i"
    by (cases "first_index (matches (VObject [(''_id'', v)])) docs")
       (auto simp: mongo_updateOne_def is_filter_def pu split: if_splits)
  from first_index_Some[OF i] have b: "i < length docs" "map_of (docs ! i) ''_id'' = Some v"
    by (simp_all add: matches_id)
  from assms(1) i obtain d' where
    d': "set_fields sp (docs ! i) operand = Inr d'"
    "map_of d' ''_id'' = map_of (docs ! i) ''_id''" "docs' = docs[i := d']"
    by (auto simp: mongo_updateOne_def is_filter_def pu split: if_splits sum.splits)
  from d'(3) b(1) have "docs' ! i = d'" by simp
  with d' b pu show ?thesis by auto
qed

text \<open>
  Claim C10. An update that succeeds (response 200), on a server whose \<^verbatim>\<open>$set\<close> is the
  one of the model: the identifier is well formed and the payload is a document; one
  document of the collection, which has that identifier, is replaced and every other is
  what it was; in the replaced document the \<^verbatim>\<open>_id\<close> and every top-level field that is not
  the first component of a key of the payload have the value they had; and when the keys
  are plain field names, each named field has the value the payload gives it.
\<close>

theorem C10_update_frame:
  assumes "updateOne drv = mongo_updateOne sp"
    and "update_document drv req docs = ((200, body), docs')"
  shows "\<exists>oid operand i.
           ObjectId drv (body_documentId req) = Inr oid \<and>
           parsed_payload drv (body_updates req) = Some (VObject operand) \<and>
           i < length docs \<and>
           map_of (docs ! i) ''_id'' = Some (VObjectId oid) \<and>
           docs' = docs[i := docs' ! i] \<and>
           map_of (docs' ! i) ''_id'' = Some (VObjectId oid) \<and>
           (\<forall>f. f \<notin> top_field ` set (map fst operand) \<longrightarrow>
                  map_of (docs' ! i) f = map_of (docs ! i) f) \<and>
           (list_all plain_field (map fst operand) \<and> distinct (map fst operand) \<longrightarrow>
              (\<forall>k v. (k, v) \<in> set operand \<longrightarrow> map_of (docs' ! i) k = Some v))"
proof -
  from assms(2) obtain pu oid m n where
    pu: "parsed_payload drv (body_updates req) = Some pu" and
    oid: "ObjectId drv (body_documentId req) = Inr oid" and
    up: "updateOne drv (VObject [(''_id'', VObjectId oid)]) (VObject [(''$set'', pu)]) docs =
           Inr (m, n, docs')" and
    m: "m \<noteq> 0"
    by (auto simp: update_document_def error_response_def
          split: if_splits option.splits sum.splits)
  from mongo_updateOne_set[OF up[unfolded assms(1)] m] obtain operand i where
    r: "pu = VObject operand" "i < length docs"
      "map_of (docs ! i) ''_id'' = Some (VObjectId oid)"
      "set_fields sp (docs ! i) operand = Inr (docs' ! i)"
      "map_of (docs' ! i) ''_id'' = map_of (docs ! i) ''_id''"
      "docs' = docs[i := docs' ! i]"
    by blast
  have frame: "map_of (docs' ! i) f = map_of (docs ! i) f"
    if "f \<notin> top_field ` set (map fst operand)" for f
    using set_fields_frame[OF r(4) that] .
  have written: "map_of (docs' ! i) k = Some v"
    if "list_all plain_field (map fst operand)" "distinct (map fst operand)"
      "(k, v) \<in> set operand" for k v
    using set_fields_written[OF r(4) that] .
  from pu oid r frame written show ?thesis
    by (intro exI[of _ oid] exI[of _ operand] exI[of _ i]) auto
qed

theorem C10_witness:
  "updateOne example_driver = mongo_updateOne example_set_path \<and>
   update_document example_driver update_request example_docs =
     ((200, VObject [(''success'', VBoolean True), (''modifiedCount'', VNumber (Fin 1)),
                     (''message'', VString ''Document updated successfully'')]),
      [[(''_id'', VObjectId ''64b7f0a1c2d3e4f5a6b7c8d9''), (''name'', VString ''pen''),
        (''qty'', VNumber (Fin 7)), (''tag'', VString ''new'')],
       [(''_id'', VObjectId ''64b7f0a1c2d3e4f5a6b7c8da''), (''name'', VString ''ink''),
        (''qty'', VNumber (Fin 1))]]) \<and>
   (\<exists>oid operand i.
      ObjectId example_driver (body_documentId update_request) = Inr oid \<and>
      parsed_payload example_driver (body_updates update_request) = Some (VObject operand) \<and>
      i < length example_docs \<and>
      map_of (example_docs ! i) ''_id'' = Some (VObjectId oid))"
proof -
  let ?docs' = "[[(''_id'', VObjectId ''64b7f0a1c2d3e4f5a6b7c8d9''), (''name'', VString ''pen''),
        (''qty'', VNumber (Fin 7)), (''tag'', VString ''new'')],
       [(''_id'', VObjectId ''64b7f0a1c2d3e4f5a6b7c8da''), (''name'', VString ''ink''),
        (''qty'', VNumber (Fin 1))]]"
  have d: "updateOne example_driver = mongo_updateOne example_set_path"
    by (simp add: example_driver_def)
  have u: "update_document example_driver update_request example_docs =
     ((200, VObject [(''success'', VBoolean True), (''modifiedCount'', VNumber (Fin 1)),
                     (''message'', VString ''Document updated successfully'')]), ?docs')"
    by code_simp
  from C10_update_frame[OF d u] have "\<exists>oid operand i.
      ObjectId example_driver (body_documentId update_request) = Inr oid \<and>
      parsed_payload example_driver (body_updates update_request) = Some (VObject operand) \<and>
      i < length example_docs \<and>
      map_of (example_docs ! i) ''_id'' = Some (VObjectId oid)"
    by blast
  with d u show ?thesis by blast
qed

end
